theory Spec2Isabelle
  imports Complex_Main "HOL-Library.Sublist" "HOL-Library.AList"
begin

section \<open>Python values and errors\<close>

text \<open>
  Task parameters are Python integers (the JSON and INI inputs carry integers), modelled
  as \<open>int\<close>. Every exception a modelled function can raise is a value of \<open>py_error\<close>,
  and a function that can raise returns \<open>py_error + 'a\<close>.
\<close>

datatype py_error = ZeroDivisionError | KeyError string

text \<open>\<open>task.get(k) or d\<close>: a missing key gives \<open>None\<close>, and \<open>None\<close> and \<open>0\<close> are falsy.\<close>

definition get_or :: "int option \<Rightarrow> int \<Rightarrow> int" where
  "get_or v d = (case v of None \<Rightarrow> d | Some x \<Rightarrow> if x = 0 then d else x)"

text \<open>
  \<open>math.ceil(a / b)\<close> on integers. Python divides in binary64 and rounds up; for
  integers below \<open>2^53\<close> in magnitude the quotient is rounded by less than its distance
  to the next integer, so the result is the exact ceiling.
\<close>

definition ceil_div :: "int \<Rightarrow> int \<Rightarrow> int" where
  "ceil_div a b = - ((- a) div b)"

section \<open>Binary64 arithmetic\<close>

text \<open>
  \<open>R * 1.1\<close> and \<open>D * 1.2\<close> multiply an integer by a binary64 constant. The integer
  converts exactly (below \<open>2^53\<close> in magnitude), the constant is \<open>m / 2^52\<close> for an
  integer \<open>m\<close>, and the product is the exact product rounded to 53 significant bits,
  ties to even. \<open>round_to_53\<close> rounds a non-negative integer so.
\<close>

function bit_length :: "int \<Rightarrow> nat" where
  "bit_length n = (if n \<le> 0 then 0 else Suc (bit_length (n div 2)))"
  by pat_completeness auto
termination
  by (relation "measure nat") auto

declare bit_length.simps [simp del]

definition round_to_53 :: "int \<Rightarrow> int" where
  "round_to_53 N =
     (let b = bit_length N in
      if b \<le> 53 then N
      else (let s = b - 53;
                q = N div 2 ^ s;
                r = N mod 2 ^ s;
                half = 2 ^ (s - 1);
                q' = (if r > half \<or> (r = half \<and> odd q) then q + 1 else q)
            in q' * 2 ^ s))"

text \<open>
  \<open>float_times R m\<close> is the binary64 product of the integer \<open>R\<close> and the constant
  \<open>m / 2^52\<close>, scaled by \<open>2^52\<close>: the product itself is \<open>float_times R m / 2^52\<close>.
  Rounding is symmetric in the sign.
\<close>

definition float_times :: "int \<Rightarrow> int \<Rightarrow> int" where
  "float_times R m = (if R < 0 then - round_to_53 (- R * m) else round_to_53 (R * m))"

text \<open>The binary64 values nearest to 1.1 and 1.2, times \<open>2^52\<close>.\<close>

definition m_1_1 :: int where "m_1_1 = 4953959590107546"
definition m_1_2 :: int where "m_1_2 = 5404319552844595"

text \<open>
  \<open>math.ceil(R * 1.1)\<close> and \<open>int(D * 1.2)\<close>; \<open>int\<close> truncates towards zero.
  On integers, \<open>- ((- x) div d)\<close> is the ceiling of \<open>x / d\<close> and \<open>x div d\<close> its floor.
\<close>

definition ceil_times_1_1 :: "int \<Rightarrow> int" where
  "ceil_times_1_1 R = - ((- float_times R m_1_1) div 2 ^ 52)"

definition int_times_1_2 :: "int \<Rightarrow> int" where
  "int_times_1_2 D =
     (let x = float_times D m_1_2 in if x < 0 then - ((- x) div 2 ^ 52) else x div 2 ^ 52)"

text \<open>
  \<open>a / b\<close> on integers and \<open>x + y\<close> on floats give the binary64 value nearest to the
  exact quotient and sum, ties to even; the division raises when \<open>b\<close> is zero.
  \<open>round_ratio a b\<close> is the nearest value for the ratio of \<open>a \<ge> 0\<close> and \<open>b > 0\<close>: the
  ratio is scaled by a power of two until its integer part \<open>Q\<close> has more than 53 bits,
  and \<open>Q\<close> is rounded to 53 bits, the remainder \<open>R\<close> of the division breaking a tie
  upwards. Binary64 values are kept as rationals; overflow and subnormal values are not
  modelled.
\<close>

definition round_ratio :: "int \<Rightarrow> int \<Rightarrow> rat" where
  "round_ratio a b =
     (if a = 0 then 0
      else (let k = nat (55 + int (bit_length b) - int (bit_length a));
                Q = (a * 2 ^ k) div b;
                R = (a * 2 ^ k) mod b;
                s = bit_length Q - 53;
                q = Q div 2 ^ s;
                r = Q mod 2 ^ s;
                half = 2 ^ (s - 1);
                q' = (if r > half \<or> (r = half \<and> (R > 0 \<or> odd q)) then q + 1 else q)
            in of_int (q' * 2 ^ s) / 2 ^ k))"

definition round_binary64 :: "rat \<Rightarrow> rat" where
  "round_binary64 x =
     (case quotient_of x of
        (a, b) \<Rightarrow> if a < 0 then - round_ratio (- a) b else round_ratio a b)"

definition float_div :: "int \<Rightarrow> int \<Rightarrow> py_error + rat" where
  "float_div a b =
     (if b = 0 then Inl ZeroDivisionError else Inr (round_binary64 (of_int a / of_int b)))"

definition float_add :: "rat \<Rightarrow> rat \<Rightarrow> rat" where
  "float_add x y = round_binary64 (x + y)"

section \<open>core/schedulability_analyzer.py\<close>

text \<open>The task dictionaries \<open>analyze\<close> receives: every key may be missing.\<close>

record task =
  task_name :: "string option"
  execution_time :: "int option"
  max_execution :: "int option"
  min_execution :: "int option"
  period :: "int option"
  deadline :: "int option"
  priority :: "int option"

text \<open>
  A dictionary in which \<open>execution_time\<close>, \<open>period\<close>, \<open>deadline\<close> and \<open>priority\<close> are
  present: the \<open>validated_task\<close> copies of \<open>analyze\<close>, and the dictionaries that stage 3
  of the pipeline builds.
\<close>

record vtask =
  v_task_name :: "string option"
  v_execution_time :: int
  v_period :: int
  v_deadline :: int
  v_priority :: int

definition validate_task :: "task \<Rightarrow> vtask" where
  "validate_task t =
     (let exec_time = (case execution_time t of
                         Some x \<Rightarrow> if x \<noteq> 0 then x else get_or (max_execution t) (get_or (min_execution t) 10)
                       | None \<Rightarrow> get_or (max_execution t) (get_or (min_execution t) 10));
          per = get_or (period t) 100
      in \<lparr> v_task_name = task_name t,
           v_execution_time = exec_time,
           v_period = per,
           v_deadline = get_or (deadline t) per,
           v_priority = get_or (priority t) 5 \<rparr>)"

text \<open>
  The inner loop of \<open>_calculate_response_time\<close>: every task of \<open>all_tasks\<close> whose
  priority number is greater than \<open>P_i\<close> adds \<open>ceil(R_i / T_j) * C_j\<close> to \<open>R_new\<close>.
  The division raises when \<open>T_j\<close> is zero.
\<close>

fun add_interference :: "int \<Rightarrow> int \<Rightarrow> vtask list \<Rightarrow> int \<Rightarrow> py_error + int" where
  "add_interference P_i R_i [] R_new = Inr R_new"
| "add_interference P_i R_i (hp_task # rest) R_new =
     (if v_priority hp_task > P_i then
        (if v_period hp_task = 0 then Inl ZeroDivisionError
         else add_interference P_i R_i rest
                (R_new + ceil_div R_i (v_period hp_task) * v_execution_time hp_task))
      else add_interference P_i R_i rest R_new)"

text \<open>
  The outer loop, \<open>for iteration in range(100)\<close>; the first argument is the number of
  iterations left. The convergence test is \<open>abs(R_new - R_i) < 0.01\<close>.
\<close>

fun response_loop :: "nat \<Rightarrow> vtask \<Rightarrow> vtask list \<Rightarrow> int \<Rightarrow> py_error + int" where
  "response_loop 0 t all_tasks R_i = Inr R_i"
| "response_loop (Suc k) t all_tasks R_i =
     (case add_interference (v_priority t) R_i all_tasks (v_execution_time t) of
        Inl e \<Rightarrow> Inl e
      | Inr R_new \<Rightarrow>
          if (of_int \<bar>R_new - R_i\<bar> :: rat) < 1 / 100 then Inr R_new
          else if R_new > v_deadline t * 2 then Inr R_new
          else response_loop k t all_tasks R_new)"

definition calculate_response_time :: "vtask \<Rightarrow> vtask list \<Rightarrow> py_error + int" where
  "calculate_response_time t all_tasks = response_loop 100 t all_tasks (v_execution_time t)"

text \<open>
  The interference set as the specification words it, for comparison: the tasks whose
  priority number is lower than \<open>P_i\<close>.
\<close>

definition spec_interference :: "int \<Rightarrow> int \<Rightarrow> vtask list \<Rightarrow> int" where
  "spec_interference P_i R_i all_tasks =
     (\<Sum>j \<leftarrow> filter (\<lambda>j. v_priority j < P_i) all_tasks.
        ceil_div R_i (v_period j) * v_execution_time j)"

text \<open>
  Total utilization: \<open>sum\<close> starts from the integer 0 and adds the binary64 quotients
  \<open>C / T\<close> from left to right, rounding after every addition (CPython before 3.12;
  later versions compensate the rounding errors of the partial sums). The Liu and
  Layland bound is kept as the exact real value; \<open>1/n\<close> raises for \<open>n = 0\<close>.
\<close>

fun sum_utilization :: "rat \<Rightarrow> vtask list \<Rightarrow> py_error + rat" where
  "sum_utilization acc [] = Inr acc"
| "sum_utilization acc (t # ts) =
     (case float_div (v_execution_time t) (v_period t) of
        Inl e \<Rightarrow> Inl e
      | Inr u \<Rightarrow> sum_utilization (float_add acc u) ts)"

definition total_util_of :: "vtask list \<Rightarrow> py_error + rat" where
  "total_util_of ts = sum_utilization 0 ts"

definition liu_layland_bound :: "nat \<Rightarrow> py_error + real" where
  "liu_layland_bound n =
     (if n = 0 then Inl ZeroDivisionError else Inr (real n * (2 powr (1 / real n) - 1)))"

text \<open>
  The loop over the tasks sorted by descending priority number: a task whose response
  time exceeds its deadline is appended to \<open>failed_tasks\<close> by name.
\<close>

fun failed_loop :: "vtask list \<Rightarrow> vtask list \<Rightarrow> py_error + string list" where
  "failed_loop [] all_tasks = Inr []"
| "failed_loop (t # ts) all_tasks =
     (case calculate_response_time t all_tasks of
        Inl e \<Rightarrow> Inl e
      | Inr response_time \<Rightarrow>
          if response_time > v_deadline t then
            (case v_task_name t of
               None \<Rightarrow> Inl (KeyError ''task_name'')
             | Some nm \<Rightarrow> (case failed_loop ts all_tasks of
                             Inl e \<Rightarrow> Inl e
                           | Inr failed \<Rightarrow> Inr (nm # failed)))
          else failed_loop ts all_tasks)"

datatype warning = UtilizationOver100 | UtilizationOverLLBound | PriorityInversion string string

text \<open>\<open>_check_priority_inversion\<close>: pairs \<open>i < j\<close> in list order; the message needs both names.\<close>

fun inversion_inner :: "vtask \<Rightarrow> vtask list \<Rightarrow> py_error + warning list" where
  "inversion_inner task_i [] = Inr []"
| "inversion_inner task_i (task_j # rest) =
     (if v_period task_i < v_period task_j \<and> v_priority task_i < v_priority task_j then
        (case (v_task_name task_i, v_task_name task_j) of
           (Some ni, Some nj) \<Rightarrow>
             (case inversion_inner task_i rest of
                Inl e \<Rightarrow> Inl e
              | Inr ws \<Rightarrow> Inr (PriorityInversion ni nj # ws))
         | _ \<Rightarrow> Inl (KeyError ''task_name''))
      else inversion_inner task_i rest)"

fun check_priority_inversion :: "vtask list \<Rightarrow> py_error + warning list" where
  "check_priority_inversion [] = Inr []"
| "check_priority_inversion (task_i # rest) =
     (case inversion_inner task_i rest of
        Inl e \<Rightarrow> Inl e
      | Inr ws \<Rightarrow> (case check_priority_inversion rest of
                     Inl e \<Rightarrow> Inl e
                   | Inr ws' \<Rightarrow> Inr (ws @ ws')))"

record schedulability_result =
  is_schedulable :: bool
  total_utilization :: rat
  ll_bound :: real
  failed_tasks :: "string list"
  warnings :: "warning list"

text \<open>\<open>analyze\<close>; the suggestion texts are not modelled.\<close>

definition analyze :: "task list \<Rightarrow> py_error + schedulability_result" where
  "analyze tasks =
     (let n = length tasks;
          validated_tasks = map validate_task tasks
      in case total_util_of validated_tasks of
           Inl e \<Rightarrow> Inl e
         | Inr total_util \<Rightarrow>
            (case liu_layland_bound n of
               Inl e \<Rightarrow> Inl e
             | Inr bound \<Rightarrow>
                (let sorted_tasks = sort_key (\<lambda>t. - v_priority t) validated_tasks
                 in case failed_loop sorted_tasks validated_tasks of
                      Inl e \<Rightarrow> Inl e
                    | Inr failed \<Rightarrow>
                       (let ws = (if total_util > 1 then [UtilizationOver100]
                                  else if of_rat total_util > bound then [UtilizationOverLLBound]
                                  else [])
                        in case check_priority_inversion validated_tasks of
                             Inl e \<Rightarrow> Inl e
                           | Inr priority_warnings \<Rightarrow>
                               Inr \<lparr> is_schedulable = (length failed = 0 \<and> total_util \<le> 1),
                                     total_utilization = total_util,
                                     ll_bound = bound,
                                     failed_tasks = failed,
                                     warnings = ws @ priority_warnings \<rparr>))))"

section \<open>Strings\<close>

text \<open>\<open>str(n)\<close> for an integer, as the f-strings format it.\<close>

fun string_of_nat :: "nat \<Rightarrow> string" where
  "string_of_nat n =
     (if n < 10 then [''0123456789'' ! n]
      else string_of_nat (n div 10) @ [''0123456789'' ! (n mod 10)])"

declare string_of_nat.simps [simp del]

definition str_int :: "int \<Rightarrow> string" where
  "str_int i = (if i < 0 then CHR ''-'' # string_of_nat (nat (- i)) else string_of_nat (nat i))"

text \<open>\<open>sub in s\<close> on strings.\<close>

fun contains :: "string \<Rightarrow> string \<Rightarrow> bool" where
  "contains sub [] = (sub = [])"
| "contains sub (c # cs) = (prefix sub (c # cs) \<or> contains sub cs)"

text \<open>
  \<open>s.count(sub)\<close> for a non-empty \<open>sub\<close>: occurrences are counted from the left and
  do not overlap; the first argument is the number of characters still covered by the
  occurrence just counted.
\<close>

fun count_from :: "nat \<Rightarrow> string \<Rightarrow> string \<Rightarrow> nat" where
  "count_from k sub [] = 0"
| "count_from (Suc k) sub (c # cs) = count_from k sub cs"
| "count_from 0 sub (c # cs) =
     (if prefix sub (c # cs) then Suc (count_from (length sub - 1) sub cs)
      else count_from 0 sub cs)"

definition str_count :: "string \<Rightarrow> string \<Rightarrow> nat" where
  "str_count s sub = count_from 0 sub s"

text \<open>\<open>s.split('\n')\<close>.\<close>

fun split_lines :: "string \<Rightarrow> string list" where
  "split_lines [] = [[]]"
| "split_lines (c # cs) =
     (if c = CHR 0x0A then [] # split_lines cs
      else (case split_lines cs of l # ls \<Rightarrow> (c # l) # ls | [] \<Rightarrow> [[c]]))"

text \<open>\<open>s.lower()\<close> on the ASCII letters.\<close>

definition lower_char :: "char \<Rightarrow> char" where
  "lower_char c =
     (case map_of (zip ''ABCDEFGHIJKLMNOPQRSTUVWXYZ'' ''abcdefghijklmnopqrstuvwxyz'') c of
        Some l \<Rightarrow> l | None \<Rightarrow> c)"

definition lower :: "string \<Rightarrow> string" where
  "lower s = map lower_char s"

section \<open>core/priority_validator.py\<close>

text \<open>
  The validator reads and writes task dictionaries with the analyzer's keys, and the
  keys \<open>task_id\<close> and \<open>priority_auto_fixed\<close>. It writes into the dictionaries it is
  given, so they live in a store (a list of objects addressed by position) and a task
  list is a list of addresses.
\<close>

record validator_task = task +
  task_id :: "int option"
  priority_auto_fixed :: "bool option"

datatype issue_type = Missing | InvalidPriority | Duplicate | AutoFixed

datatype severity = Error | Warning

text \<open>A \<open>PriorityIssue\<close>, without its message text.\<close>

record priority_issue =
  issue_task_id :: int
  issue_task_name :: string
  issue_type :: issue_type
  severity :: severity
  suggested_fix :: "int option"

text \<open>The loop of \<open>validate_priorities\<close> over \<open>enumerate(tasks)\<close>.\<close>

fun validate_loop ::
  "bool \<Rightarrow> nat \<Rightarrow> nat list \<Rightarrow> validator_task list \<Rightarrow> priority_issue list
     \<Rightarrow> validator_task list \<times> priority_issue list" where
  "validate_loop strict_mode idx [] h issues = (h, issues)"
| "validate_loop strict_mode idx (a # as) h issues =
     (let t = h ! a;
          nm = (case task_name t of Some n \<Rightarrow> n | None \<Rightarrow> ''Task'' @ string_of_nat (idx + 1));
          tid = (case task_id t of Some i \<Rightarrow> i | None \<Rightarrow> int idx)
      in case priority t of
           None \<Rightarrow>
             validate_loop strict_mode (idx + 1) as
               (if \<not> strict_mode then h[a := t\<lparr> priority := Some 5 \<rparr>] else h)
               (issues @ [\<lparr> issue_task_id = tid, issue_task_name = nm, issue_type = Missing,
                             severity = (if strict_mode then Error else Warning),
                             suggested_fix = Some 5 \<rparr>])
         | Some p \<Rightarrow>
             if \<not> (1 \<le> p \<and> p \<le> 10) then
               validate_loop strict_mode (idx + 1) as
                 (if \<not> strict_mode then h[a := t\<lparr> priority := Some (max 1 (min 10 p)) \<rparr>] else h)
                 (issues @ [\<lparr> issue_task_id = tid, issue_task_name = nm,
                               issue_type = InvalidPriority, severity = Error,
                               suggested_fix = Some (max 1 (min 10 p)) \<rparr>])
             else validate_loop strict_mode (idx + 1) as h issues)"

text \<open>\<open>', '.join(names)\<close>.\<close>

fun join_names :: "string list \<Rightarrow> string" where
  "join_names [] = []"
| "join_names [n] = n"
| "join_names (n # ns) = n @ '', '' @ join_names ns"

text \<open>
  \<open>validate_uniqueness\<close> returns whether the priorities present are pairwise distinct
  and the issues it appends, one for every repeated priority. Python iterates the set
  of repeated priorities in an order of its own; here they come in order of occurrence.
  Building the issue reads \<open>task_name\<close> of every task with that priority.
\<close>

definition duplicate_issue :: "validator_task list \<Rightarrow> int \<Rightarrow> py_error + priority_issue" where
  "duplicate_issue tasks dup =
     (let dup_tasks = filter (\<lambda>t. priority t = Some dup) tasks in
      case those (map task_name dup_tasks) of
        None \<Rightarrow> Inl (KeyError ''task_name'')
      | Some names \<Rightarrow>
          Inr \<lparr> issue_task_id = - 1, issue_task_name = join_names names,
                issue_type = Duplicate, severity = Error, suggested_fix = None \<rparr>)"

fun duplicate_issues :: "validator_task list \<Rightarrow> int list \<Rightarrow> py_error + priority_issue list" where
  "duplicate_issues tasks [] = Inr []"
| "duplicate_issues tasks (dup # dups) =
     (case duplicate_issue tasks dup of
        Inl e \<Rightarrow> Inl e
      | Inr i \<Rightarrow> (case duplicate_issues tasks dups of
                    Inl e \<Rightarrow> Inl e
                  | Inr is \<Rightarrow> Inr (i # is)))"

definition validate_uniqueness :: "validator_task list \<Rightarrow> py_error + bool \<times> priority_issue list" where
  "validate_uniqueness tasks =
     (let priorities = concat (map (\<lambda>t. case priority t of None \<Rightarrow> [] | Some p \<Rightarrow> [p]) tasks) in
      if \<not> distinct priorities then
        (let duplicates = remdups (filter (\<lambda>p. count_list priorities p > 1) priorities) in
         case duplicate_issues tasks duplicates of
           Inl e \<Rightarrow> Inl e
         | Inr is \<Rightarrow> Inr (False, is))
      else Inr (True, []))"

text \<open>
  \<open>validate_priorities\<close> returns the store, and unless \<open>validate_uniqueness\<close> raises,
  \<open>is_valid\<close> with the issues of the report.
\<close>

definition validate_priorities ::
  "bool \<Rightarrow> validator_task list \<Rightarrow> nat list
     \<Rightarrow> validator_task list \<times> (py_error + bool \<times> priority_issue list)" where
  "validate_priorities strict_mode h tasks =
     (let (h', issues) = validate_loop strict_mode 0 tasks h []
      in (h', case validate_uniqueness (map (\<lambda>a. h' ! a) tasks) of
                Inl e \<Rightarrow> Inl e
              | Inr (unique_ok, dup_issues) \<Rightarrow>
                  (let report = issues @ dup_issues;
                       has_errors = (filter (\<lambda>i. severity i = Error) report \<noteq> [])
                   in Inr (unique_ok \<and> \<not> has_errors, report))))"

text \<open>The loop of \<open>auto_fix_priorities\<close> over the tasks sorted by period.\<close>

fun auto_fix_loop ::
  "nat \<Rightarrow> nat list \<Rightarrow> validator_task list \<Rightarrow> priority_issue list
     \<Rightarrow> validator_task list \<times> priority_issue list" where
  "auto_fix_loop i [] h issues = (h, issues)"
| "auto_fix_loop i (a # as) h issues =
     (let t = h ! a;
          old_priority = (case priority t of None \<Rightarrow> 5 | Some p \<Rightarrow> p);
          new_priority = max 1 (10 - int i);
          issues' = (if old_priority \<noteq> new_priority then
                       issues @ [\<lparr> issue_task_id = (case task_id t of Some i \<Rightarrow> i | None \<Rightarrow> - 1),
                                     issue_task_name = (case task_name t of Some n \<Rightarrow> n
                                                        | None \<Rightarrow> ''Unknown''),
                                     issue_type = AutoFixed, severity = Warning,
                                     suggested_fix = Some new_priority \<rparr>]
                     else issues)
      in auto_fix_loop (i + 1) as
           (h[a := t\<lparr> priority := Some new_priority,
                      priority_auto_fixed := Some (old_priority \<noteq> new_priority) \<rparr>])
           issues')"

text \<open>
  \<open>auto_fix_priorities\<close> returns the store, and unless \<open>validate_uniqueness\<close> raises,
  the issues so far; the task list it returns is the one it was given.
\<close>

definition auto_fix_priorities ::
  "bool \<Rightarrow> priority_issue list \<Rightarrow> validator_task list \<Rightarrow> nat list
     \<Rightarrow> validator_task list \<times> (py_error + priority_issue list)" where
  "auto_fix_priorities strict_mode issues h tasks =
     (let fix = (\<lambda>issues0.
            (let sorted_tasks = sort_key (\<lambda>a. get_or (period (h ! a)) 999999) tasks;
                 (h', issues') = auto_fix_loop 0 sorted_tasks h issues0
             in (h', Inr issues')))
      in if strict_mode then
           (case validate_uniqueness (map (\<lambda>a. h ! a) tasks) of
              Inl e \<Rightarrow> (h, Inl e)
            | Inr (unique_ok, dup_issues) \<Rightarrow>
                if \<not> unique_ok then (h, Inr (issues @ dup_issues))
                else fix (issues @ dup_issues))
         else fix issues)"

section \<open>core/uppaal_verifier.py\<close>

text \<open>
  What running the \<open>verifyta\<close> binary can do: the binary is not there, the run times
  out, another exception is raised, or the run completes with its standard output and
  standard error, concatenated.
\<close>

datatype run_outcome = NotFound | TimeoutExpired | Raised string | Completed string

record counterexample =
  property :: string
  trace :: "string list"
  violation :: string

record check_result =
  all_passed :: bool
  counterexamples :: "counterexample list"

record verify_result = check_result +
  success :: bool
  error :: "string option"
  properties_verified :: nat
  properties_failed :: nat

text \<open>One counterexample entry for every output line that reports a failed formula.\<close>

definition failed_line_entries :: "string list \<Rightarrow> counterexample list" where
  "failed_line_entries ls =
     map (\<lambda>_. \<lparr> property = ''Unknown (see raw output)'',
                trace = [''State transition extracted from verifyta output''],
                violation = ''Property violated according to UPPAAL'' \<rparr>)
         (filter (contains ''Formula is NOT satisfied'') ls)"

definition verify :: "run_outcome \<Rightarrow> verify_result" where
  "verify outcome =
     (case outcome of
        NotFound \<Rightarrow>
          \<lparr> all_passed = False, counterexamples = [], success = False,
            error = Some ''verifyta.exe not found'',
            properties_verified = 0, properties_failed = 0 \<rparr>
      | TimeoutExpired \<Rightarrow>
          \<lparr> all_passed = False,
            counterexamples = [\<lparr> property = ''TIMEOUT'', trace = [],
                                 violation = ''Verification timeout'' \<rparr>],
            success = False, error = Some ''Timeout'',
            properties_verified = 0, properties_failed = 0 \<rparr>
      | Raised e \<Rightarrow>
          \<lparr> all_passed = False,
            counterexamples = [\<lparr> property = ''ERROR'', trace = [], violation = e \<rparr>],
            success = False, error = Some e,
            properties_verified = 0, properties_failed = 0 \<rparr>
      | Completed output \<Rightarrow>
          (let satisfied_count = str_count output ''Formula is satisfied'';
               failed_count = str_count output ''Formula is NOT satisfied'';
               lines = split_lines output;
               ces = (if failed_count > 0 then failed_line_entries lines else [])
           in \<lparr> all_passed = (failed_count = 0 \<and> satisfied_count > 0),
                counterexamples = ces, success = True, error = None,
                properties_verified = satisfied_count,
                properties_failed = failed_count \<rparr>))"

section \<open>core/autonomous_pipeline.py: tasks and properties\<close>

text \<open>
  A task of the pipeline's specification after stage 1, when every key is present.
  The key \<open>priority\<close> is the field \<open>prio\<close> here.
\<close>

record ptask =
  name :: string
  period_ms :: int
  execution_ms :: int
  deadline_ms :: int
  prio :: int

datatype category = SAFETY | DEADLINE | LIVENESS | MUTUAL_EXCLUSION

record tctl_property =
  formula :: string
  comment :: string
  category :: category

text \<open>\<open>_sanitize_name\<close>: every character outside \<open>[A-Za-z0-9_]\<close> becomes an underscore.\<close>

definition sanitize_name :: "string \<Rightarrow> string" where
  "sanitize_name nm =
     map (\<lambda>c. if c \<in> set ''ABCDEFGHIJKLMNOPQRSTUVWXYZabcdefghijklmnopqrstuvwxyz0123456789_''
               then c else CHR ''_'') nm"

subsection \<open>Stage 4: the deterministic templates\<close>

definition deadlock_property :: tctl_property where
  "deadlock_property =
     \<lparr> formula = ''A[] not deadlock'', comment = ''System must be deadlock-free'',
       category = SAFETY \<rparr>"

definition deadline_property :: "ptask \<Rightarrow> tctl_property" where
  "deadline_property t =
     \<lparr> formula = ''A[] ('' @ sanitize_name (name t) @ ''.Executing imply x <= ''
                   @ str_int (deadline_ms t) @ '')'',
       comment = name t @ '' must complete before deadline'',
       category = DEADLINE \<rparr>"

definition reachability_property :: "ptask \<Rightarrow> tctl_property" where
  "reachability_property t =
     \<lparr> formula = ''E<> '' @ sanitize_name (name t) @ ''.Done'',
       comment = name t @ '' can reach completion'',
       category = LIVENESS \<rparr>"

definition mutex_property :: "ptask \<Rightarrow> ptask \<Rightarrow> tctl_property" where
  "mutex_property t1 t2 =
     \<lparr> formula = ''A[] not ('' @ sanitize_name (name t1) @ ''.Executing and ''
                   @ sanitize_name (name t2) @ ''.Executing)'',
       comment = ''Mutual exclusion between '' @ name t1 @ '' and '' @ name t2,
       category = MUTUAL_EXCLUSION \<rparr>"

text \<open>The pairs \<open>i < j\<close>, in the order of the two nested loops.\<close>

fun mutex_pairs :: "ptask list \<Rightarrow> tctl_property list" where
  "mutex_pairs [] = []"
| "mutex_pairs (t # ts) = map (mutex_property t) ts @ mutex_pairs ts"

text \<open>
  The template path of \<open>_stage4_property_generation\<close>. The LLM path before it reads the
  key \<open>execution_time_ms\<close>, which no task of the pipeline has; the \<open>KeyError\<close> is caught
  and the templates are used.
\<close>

definition stage4_property_generation :: "ptask list \<Rightarrow> tctl_property list" where
  "stage4_property_generation tasks =
     [deadlock_property]
     @ map deadline_property tasks
     @ map reachability_property tasks
     @ (if length tasks > 1 then mutex_pairs tasks else [])"

subsection \<open>Stage 3: schedulability analysis and repair\<close>

definition analyzer_task :: "ptask \<Rightarrow> task" where
  "analyzer_task t =
     \<lparr> task_name = Some (name t), execution_time = Some (execution_ms t),
       max_execution = None, min_execution = None, period = Some (period_ms t),
       deadline = Some (deadline_ms t), priority = Some (prio t) \<rparr>"

text \<open>The same dictionary as \<open>_calculate_response_time\<close> reads it, without defaults.\<close>

definition analyzer_vtask :: "ptask \<Rightarrow> vtask" where
  "analyzer_vtask t =
     \<lparr> v_task_name = Some (name t), v_execution_time = execution_ms t,
       v_period = period_ms t, v_deadline = deadline_ms t, v_priority = prio t \<rparr>"

text \<open>
  The dictionary \<open>response_times\<close>, keyed by task name, as an association list in
  insertion order; a name that occurs again overwrites its entry.
\<close>

fun response_times_loop ::
  "ptask list \<Rightarrow> vtask list \<Rightarrow> (string \<times> int) list \<Rightarrow> py_error + (string \<times> int) list" where
  "response_times_loop [] all_tasks rts = Inr rts"
| "response_times_loop (t # ts) all_tasks rts =
     (case calculate_response_time (analyzer_vtask t) all_tasks of
        Inl e \<Rightarrow> Inl e
      | Inr rt \<Rightarrow> response_times_loop ts all_tasks (AList.update (name t) rt rts))"

definition repair_task :: "ptask \<Rightarrow> int \<Rightarrow> ptask" where
  "repair_task t R =
     (if R > deadline_ms t then
        (let fixed_task = t\<lparr> deadline_ms := ceil_times_1_1 R \<rparr>
         in if deadline_ms fixed_task > period_ms fixed_task
            then fixed_task\<lparr> period_ms := deadline_ms fixed_task \<rparr>
            else fixed_task)
      else t)"

fun auto_repair_schedulability ::
  "ptask list \<Rightarrow> (string \<times> int) list \<Rightarrow> py_error + ptask list" where
  "auto_repair_schedulability [] response_times = Inr []"
| "auto_repair_schedulability (t # ts) response_times =
     (case map_of response_times (name t) of
        None \<Rightarrow> Inl (KeyError (name t))
      | Some R \<Rightarrow> (case auto_repair_schedulability ts response_times of
                     Inl e \<Rightarrow> Inl e
                   | Inr fixed_tasks \<Rightarrow> Inr (repair_task t R # fixed_tasks)))"

datatype stage3_result =
    Schedulable "(string \<times> int) list"
  | Unschedulable "(string \<times> int) list" "ptask list"

text \<open>
  \<open>_stage3_schedulability_analysis\<close>: the result carries the response times and,
  when the analyzer says unschedulable, the repaired tasks (\<open>fixed_spec\<close>).
\<close>

definition stage3_schedulability_analysis :: "ptask list \<Rightarrow> py_error + stage3_result" where
  "stage3_schedulability_analysis tasks =
     (case analyze (map analyzer_task tasks) of
        Inl e \<Rightarrow> Inl e
      | Inr result \<Rightarrow>
         (case response_times_loop tasks (map analyzer_vtask tasks) [] of
            Inl e \<Rightarrow> Inl e
          | Inr rts \<Rightarrow>
             if \<not> is_schedulable result then
               (case auto_repair_schedulability tasks rts of
                  Inl e \<Rightarrow> Inl e
                | Inr fixed_tasks \<Rightarrow> Inr (Unschedulable rts fixed_tasks))
             else Inr (Schedulable rts)))"

subsection \<open>Stage 7: repair from counterexamples\<close>

text \<open>
  The inner loop over the counterexamples: each one whose trace lists the sanitized
  task name and whose violation text mentions a deadline multiplies the deadline of the
  copy by 1.2 and truncates. The repair log carries the name and both deadlines.
\<close>

fun apply_counterexamples ::
  "string \<Rightarrow> counterexample list \<Rightarrow> ptask \<Rightarrow> (string \<times> int \<times> int) list
     \<Rightarrow> ptask \<times> (string \<times> int \<times> int) list" where
  "apply_counterexamples nm [] repaired_task repairs = (repaired_task, repairs)"
| "apply_counterexamples nm (ce # ces) repaired_task repairs =
     (if sanitize_name nm \<in> set (trace ce) then
        (if contains ''deadline'' (lower (violation ce)) then
           (let old_deadline = deadline_ms repaired_task;
                repaired_task' = repaired_task\<lparr> deadline_ms := int_times_1_2 old_deadline \<rparr>
            in apply_counterexamples nm ces repaired_task'
                 (repairs @ [(nm, old_deadline, deadline_ms repaired_task')]))
         else apply_counterexamples nm ces repaired_task repairs)
      else apply_counterexamples nm ces repaired_task repairs)"

record stage7_result =
  repaired_spec :: "ptask list"
  repairs_applied :: "(string \<times> int \<times> int) list"

fun failure_analysis_loop ::
  "counterexample list \<Rightarrow> ptask list \<Rightarrow> (string \<times> int \<times> int) list \<Rightarrow> stage7_result" where
  "failure_analysis_loop ces [] repairs = \<lparr> repaired_spec = [], repairs_applied = repairs \<rparr>"
| "failure_analysis_loop ces (t # ts) repairs =
     (let (repaired_task, repairs') = apply_counterexamples (name t) ces t repairs;
          r = failure_analysis_loop ces ts repairs'
      in r\<lparr> repaired_spec := repaired_task # repaired_spec r \<rparr>)"

definition stage7_failure_analysis :: "counterexample list \<Rightarrow> ptask list \<Rightarrow> stage7_result" where
  "stage7_failure_analysis ces tasks = failure_analysis_loop ces tasks []"

subsection \<open>Stage 1: input validation\<close>

text \<open>
  A task of a parsed specification: any key may be missing. The input of a run is
  either such a list of tasks (the \<open>tasks\<close> of the JSON object, or the sections of the
  INI text), or something stage 1 cannot parse, for which it catches the exception.
\<close>

record raw_task =
  r_name :: "string option"
  r_period_ms :: "int option"
  r_execution_ms :: "int option"
  r_deadline_ms :: "int option"
  r_priority :: "int option"

datatype spec_input = Unparseable | Spec "raw_task list"

datatype validation_error = InvalidPeriod string | InvalidExecution string

text \<open>\<open>_normalize_spec\<close>: a task without a name is named after its position.\<close>

fun normalize_spec :: "nat \<Rightarrow> raw_task list \<Rightarrow> raw_task list" where
  "normalize_spec i [] = []"
| "normalize_spec i (t # ts) =
     (case r_name t of
        None \<Rightarrow> t\<lparr> r_name := Some (''Task_'' @ string_of_nat (i + 1)) \<rparr>
      | Some _ \<Rightarrow> t) # normalize_spec (i + 1) ts"

definition task_errors :: "raw_task \<Rightarrow> validation_error list" where
  "task_errors t =
     (let nm = (case r_name t of None \<Rightarrow> ''?'' | Some n \<Rightarrow> n) in
      (case r_period_ms t of
         None \<Rightarrow> [InvalidPeriod nm]
       | Some p \<Rightarrow> if p \<le> 0 then [InvalidPeriod nm] else [])
      @ (case r_execution_ms t of
           None \<Rightarrow> [InvalidExecution nm]
         | Some e \<Rightarrow> if e \<le> 0 then [InvalidExecution nm] else []))"

definition fill_missing :: "raw_task \<Rightarrow> raw_task" where
  "fill_missing t =
     t\<lparr> r_deadline_ms := (case r_deadline_ms t of
                            None \<Rightarrow> Some (case r_period_ms t of None \<Rightarrow> 100 | Some p \<Rightarrow> p)
                          | Some d \<Rightarrow> Some d),
        r_priority := (case r_priority t of None \<Rightarrow> Some 1 | Some p \<Rightarrow> Some p) \<rparr>"

text \<open>The four \<open>setdefault\<close> calls, in order.\<close>

definition set_defaults :: "raw_task \<Rightarrow> raw_task" where
  "set_defaults t =
     (let per = (case r_period_ms t of None \<Rightarrow> 100 | Some p \<Rightarrow> p);
          ex = (case r_execution_ms t of None \<Rightarrow> per div 2 | Some e \<Rightarrow> e);
          dl = (case r_deadline_ms t of None \<Rightarrow> per | Some d \<Rightarrow> d);
          pr = (case r_priority t of None \<Rightarrow> 1 | Some p \<Rightarrow> p)
      in t\<lparr> r_period_ms := Some per, r_execution_ms := Some ex,
            r_deadline_ms := Some dl, r_priority := Some pr \<rparr>)"

definition to_ptask :: "raw_task \<Rightarrow> ptask option" where
  "to_ptask t =
     (case (r_name t, r_period_ms t, r_execution_ms t, r_deadline_ms t, r_priority t) of
        (Some n, Some p, Some e, Some d, Some pr) \<Rightarrow>
          Some \<lparr> name = n, period_ms = p, execution_ms = e, deadline_ms = d, prio = pr \<rparr>
      | _ \<Rightarrow> None)"

text \<open>\<open>json.dumps\<close> of a specification, parsed again in the next iteration.\<close>

definition to_raw :: "ptask \<Rightarrow> raw_task" where
  "to_raw t =
     \<lparr> r_name = Some (name t), r_period_ms = Some (period_ms t),
       r_execution_ms = Some (execution_ms t), r_deadline_ms = Some (deadline_ms t),
       r_priority = Some (prio t) \<rparr>"

datatype stage1_result = Valid "ptask list" | Invalid "validation_error list" spec_input

text \<open>
  \<open>_stage1_input_validation\<close>. With no validation error every key of every task is
  present, so the last branch is never taken.
\<close>

definition stage1_input_validation :: "spec_input \<Rightarrow> stage1_result" where
  "stage1_input_validation spec_input =
     (case spec_input of
        Unparseable \<Rightarrow> Invalid [] Unparseable
      | Spec raws \<Rightarrow>
         (let normalized = normalize_spec 0 raws;
              validation_errors = concat (map task_errors normalized);
              filled = map fill_missing normalized
          in if validation_errors \<noteq> [] then
               Invalid validation_errors (Spec (map set_defaults filled))
             else (case those (map to_ptask filled) of
                     Some tasks \<Rightarrow> Valid tasks
                   | None \<Rightarrow> Invalid [] Unparseable)))"

subsection \<open>Stage 2: priority validation\<close>

text \<open>
  Stage 2 writes into the task dictionaries it is given. The dictionaries live in a
  store, a list of objects addressed by position; a task list is a list of addresses.
  \<open>sorted\<close> is stable, as \<open>sort_key\<close> is.
\<close>

fun assign_priorities :: "nat \<Rightarrow> nat list \<Rightarrow> ptask list \<Rightarrow> bool \<Rightarrow> ptask list \<times> bool" where
  "assign_priorities i [] h needs_fix = (h, needs_fix)"
| "assign_priorities i (a # as) h needs_fix =
     (let correct_priority = int i + 1 in
      if prio (h ! a) \<noteq> correct_priority
      then assign_priorities (i + 1) as (h[a := (h ! a)\<lparr> prio := correct_priority \<rparr>]) True
      else assign_priorities (i + 1) as h needs_fix)"

record stage2_result =
  needs_fix :: bool
  fixed_refs :: "nat list option"

definition stage2_priority_validation :: "ptask list \<Rightarrow> nat list \<Rightarrow> ptask list \<times> stage2_result" where
  "stage2_priority_validation h tasks =
     (let sorted_tasks = sort_key (\<lambda>a. period_ms (h ! a)) tasks;
          (h', nf) = assign_priorities 0 sorted_tasks h False
      in (h', \<lparr> needs_fix = nf, fixed_refs = (if nf then Some sorted_tasks else None) \<rparr>))"

text \<open>
  Stage 2 as \<open>run_pipeline\<close> uses it: the tasks stage 1 parsed are fresh objects, and
  \<open>current_spec\<close> becomes the sorted list when a priority was rewritten.
\<close>

definition spec_after_stage2 :: "ptask list \<Rightarrow> ptask list \<times> bool" where
  "spec_after_stage2 normalized =
     (let refs = [0 ..< length normalized];
          (h', r) = stage2_priority_validation normalized refs
      in (map (\<lambda>a. h' ! a) (case fixed_refs r of Some s \<Rightarrow> s | None \<Rightarrow> refs), needs_fix r))"

subsection \<open>Stages 5 and 6\<close>

text \<open>
  The model generator (\<open>core/uppaal_generator.py\<close>) and the \<open>verifyta\<close> binary are
  outside the sources at hand: an environment gives the XML that stage 5 produces for a
  task list and a property list, and the outcome of running the binary on an XML text.
  \<open>verifyta_path\<close> tells whether a path to the binary is configured.
\<close>

record environment =
  verifyta_path :: bool
  uppaal_generation :: "ptask list \<Rightarrow> tctl_property list \<Rightarrow> string"
  verifyta :: "string \<Rightarrow> run_outcome"

definition simulated_failure :: "string \<Rightarrow> string \<Rightarrow> bool" where
  "simulated_failure uppaal_xml f =
     (\<not> contains ''deadlock'' f \<and> \<not> contains ''imply x <='' f \<and> \<not> contains ''E<>'' f
      \<and> contains ''not ('' f \<and> contains ''.Executing and'' f
      \<and> \<not> contains ''cpu_owner'' uppaal_xml)"

definition simulate_verifyta :: "string \<Rightarrow> tctl_property list \<Rightarrow> check_result" where
  "simulate_verifyta uppaal_xml properties =
     (let failed = filter (\<lambda>p. simulated_failure uppaal_xml (formula p)) properties
      in \<lparr> all_passed = (failed = []),
           counterexamples =
             map (\<lambda>p. \<lparr> property = formula p,
                         trace = [''Task_0.Executing'', ''Task_1.Executing''],
                         violation = ''Tasks executing simultaneously'' \<rparr>) failed \<rparr>)"

definition stage6_verifyta_check :: "environment \<Rightarrow> string \<Rightarrow> tctl_property list \<Rightarrow> check_result" where
  "stage6_verifyta_check E uppaal_xml properties =
     (if verifyta_path E then
        (let r = verify (verifyta E uppaal_xml)
         in \<lparr> all_passed = all_passed r, counterexamples = counterexamples r \<rparr>)
      else simulate_verifyta uppaal_xml properties)"

subsection \<open>The controller\<close>

datatype stage_log =
    LogStage1 stage1_result
  | LogStage2 bool "ptask list"
  | LogStage3 stage3_result
  | LogStage4 "tctl_property list"
  | LogStage5 string
  | LogStage6 check_result
  | LogStage7 stage7_result
  | LogStage8
  | LogStage9

record iteration_log =
  iteration :: nat
  stages :: "stage_log list"

record pipeline_result =
  run_success :: bool
  converged :: bool
  iterations :: nat
  final_spec :: "ptask list option"
  stage_history :: "iteration_log list"

definition max_repair_iterations :: nat where
  "max_repair_iterations = 10"

text \<open>
  The \<open>while\<close> loop of \<open>run_pipeline\<close>. The list \<open>self.stage_results\<close> belongs to the
  pipeline object: \<open>__init__\<close> sets it to the empty list, and every iteration of every
  run appends one entry to it, which \<open>_log_stage\<close> then fills. The loop takes the list
  as it stands and returns it as the run leaves it, together with the returned
  dictionary, whose \<open>stage_history\<close> is that list, or with the exception. Stages 8 and
  9 build texts from the verified specification and are logged only. An exception of
  stage 3 is not caught; stages 1 and 2 of that iteration are logged by then.
\<close>

function run_loop ::
  "environment \<Rightarrow> nat \<Rightarrow> spec_input \<Rightarrow> iteration_log list
     \<Rightarrow> iteration_log list \<times> (py_error + pipeline_result)" where
  "run_loop E n spec_input stage_results =
     (if n < max_repair_iterations then
        (case stage1_input_validation spec_input of
           Invalid errs fixed \<Rightarrow>
             run_loop E (n + 1) fixed
               (stage_results @ [\<lparr> iteration = n + 1,
                                    stages = [LogStage1 (Invalid errs fixed)] \<rparr>])
         | Valid normalized \<Rightarrow>
            (case spec_after_stage2 normalized of
               (current_spec, nf) \<Rightarrow>
                 (case stage3_schedulability_analysis current_spec of
                    Inl e \<Rightarrow>
                      (stage_results @ [\<lparr> iteration = n + 1,
                                           stages = [LogStage1 (Valid normalized),
                                                     LogStage2 nf current_spec] \<rparr>],
                       Inl e)
                  | Inr (Unschedulable rts fixed_tasks) \<Rightarrow>
                      run_loop E (n + 1) (Spec (map to_raw fixed_tasks))
                        (stage_results @ [\<lparr> iteration = n + 1,
                                             stages = [LogStage1 (Valid normalized),
                                                       LogStage2 nf current_spec,
                                                       LogStage3 (Unschedulable rts fixed_tasks)] \<rparr>])
                  | Inr (Schedulable rts) \<Rightarrow>
                      (let properties = stage4_property_generation current_spec;
                           uppaal_xml = uppaal_generation E current_spec properties;
                           stage6_result = stage6_verifyta_check E uppaal_xml properties;
                           logged = [LogStage1 (Valid normalized), LogStage2 nf current_spec,
                                     LogStage3 (Schedulable rts), LogStage4 properties,
                                     LogStage5 uppaal_xml, LogStage6 stage6_result]
                       in if \<not> all_passed stage6_result then
                            (let stage7_result =
                                   stage7_failure_analysis (counterexamples stage6_result) current_spec
                             in run_loop E (n + 1) (Spec (map to_raw (repaired_spec stage7_result)))
                                  (stage_results @ [\<lparr> iteration = n + 1,
                                                       stages = logged @ [LogStage7 stage7_result] \<rparr>]))
                          else
                            (let stage_results' =
                                   stage_results @ [\<lparr> iteration = n + 1,
                                                        stages = logged @ [LogStage8, LogStage9] \<rparr>]
                             in (stage_results',
                                 Inr \<lparr> run_success = True, converged = True, iterations = n + 1,
                                       final_spec = Some current_spec,
                                       stage_history = stage_results' \<rparr>))))))
      else (stage_results,
            Inr \<lparr> run_success = False, converged = False, iterations = n,
                  final_spec = None, stage_history = stage_results \<rparr>))"
  by pat_completeness auto
termination
  by (relation "measure (\<lambda>(E, n, spec_input, stage_results). max_repair_iterations - n)") auto

declare run_loop.simps [simp del]


section \<open>The response-time recurrence as the specification words it\<close>

text \<open>
  For comparison with \<open>response_loop\<close>: the same iteration with the interference set of
  the specification, the tasks whose priority number is lower.
\<close>

fun spec_response_loop :: "nat \<Rightarrow> vtask \<Rightarrow> vtask list \<Rightarrow> int \<Rightarrow> int" where
  "spec_response_loop 0 t all_tasks R = R"
| "spec_response_loop (Suc k) t all_tasks R =
     (let R' = v_execution_time t + spec_interference (v_priority t) R all_tasks in
      if \<bar>R' - R\<bar> < 1 then R'
      else if R' > 2 * v_deadline t then R'
      else spec_response_loop k t all_tasks R')"

definition spec_response_time :: "vtask \<Rightarrow> vtask list \<Rightarrow> int" where
  "spec_response_time t all_tasks = spec_response_loop 100 t all_tasks (v_execution_time t)"

section \<open>Example inputs\<close>

text \<open>A single task with period and deadline 100 and execution time 10.\<close>

definition ex_single :: "task list" where
  "ex_single = [\<lparr> task_name = Some ''Task_1'', execution_time = Some 10, max_execution = None,
                   min_execution = None, period = Some 100, deadline = Some 100,
                   priority = Some 1 \<rparr>]"

text \<open>The same task as the pipeline has it, and one whose deadline is too short.\<close>

definition ex_task :: ptask where
  "ex_task = \<lparr> name = ''Task_1'', period_ms = 100, execution_ms = 10, deadline_ms = 100, prio = 1 \<rparr>"

definition ex_late :: ptask where
  "ex_late = \<lparr> name = ''Task_1'', period_ms = 100, execution_ms = 50, deadline_ms = 40, prio = 1 \<rparr>"

text \<open>Two tasks in rate-monotonic order, priority 1 for the shorter period.\<close>

definition ex_A :: ptask where
  "ex_A = \<lparr> name = ''A'', period_ms = 4, execution_ms = 2, deadline_ms = 2, prio = 1 \<rparr>"
definition ex_B :: ptask where
  "ex_B = \<lparr> name = ''B'', period_ms = 10, execution_ms = 3, deadline_ms = 10, prio = 2 \<rparr>"

text \<open>
  Three tasks on the period 100 whose execution times 33, 56 and 11 add up to the
  period, with the priorities stage 2 gives them; and two task dictionaries whose
  utilizations add up to \<open>1 + 10^-17\<close>.
\<close>

definition ex_full :: "ptask list" where
  "ex_full =
     [\<lparr> name = ''T1'', period_ms = 100, execution_ms = 33, deadline_ms = 100, prio = 1 \<rparr>,
      \<lparr> name = ''T2'', period_ms = 100, execution_ms = 56, deadline_ms = 100, prio = 2 \<rparr>,
      \<lparr> name = ''T3'', period_ms = 100, execution_ms = 11, deadline_ms = 100, prio = 3 \<rparr>]"

definition ex_over :: "task list" where
  "ex_over =
     [\<lparr> task_name = Some ''A'', execution_time = Some 1, max_execution = None,
        min_execution = None, period = Some 1, deadline = Some 1, priority = Some 2 \<rparr>,
      \<lparr> task_name = Some ''B'', execution_time = Some 1, max_execution = None,
        min_execution = None, period = Some (10 ^ 17), deadline = Some (10 ^ 17),
        priority = Some 1 \<rparr>]"

text \<open>
  What \<open>analyze\<close> reports: the flag, the failed tasks and the total utilization.
\<close>

definition verdict :: "schedulability_result \<Rightarrow> bool \<times> string list \<times> rat" where
  "verdict r = (is_schedulable r, failed_tasks r, total_utilization r)"

text \<open>A task and a counterexample that names it and reports a deadline violation.\<close>

definition ex_tight :: ptask where
  "ex_tight = \<lparr> name = ''Task A'', period_ms = 11, execution_ms = 5, deadline_ms = 11, prio = 1 \<rparr>"

definition ex_short :: ptask where
  "ex_short = \<lparr> name = ''Task A'', period_ms = 10, execution_ms = 2, deadline_ms = 4, prio = 1 \<rparr>"

definition ex_s6 :: ptask where
  "ex_s6 = \<lparr> name = ''Task_A'', period_ms = 16, execution_ms = 5, deadline_ms = 15, prio = 1 \<rparr>"

definition ex_deadline_ce :: counterexample where
  "ex_deadline_ce = \<lparr> property = ''A[] (Task_A.Executing imply x <= 11)'', trace = [''Task_A''],
                       violation = ''Deadline violated'' \<rparr>"

text \<open>
  Two outputs of \<open>verifyta\<close>: one satisfied formula, with the line break that ends the
  last line; and a satisfied formula followed by a failed one.
\<close>

definition ex_output_satisfied :: string where
  "ex_output_satisfied =
     ''Verifying formula 1 at line 1'' @ [CHR 0x0A] @ '' -- Formula is satisfied.'' @ [CHR 0x0A]"

definition ex_output_mixed :: string where
  "ex_output_mixed =
     '' -- Formula is satisfied.'' @ [CHR 0x0A] @ '' -- Formula is NOT satisfied.''"

text \<open>
  What the loop of \<open>auto_fix_priorities\<close> writes into the task at position \<open>i\<close> of the
  sorted list.
\<close>

definition fixed_task :: "nat \<Rightarrow> validator_task \<Rightarrow> validator_task" where
  "fixed_task i t =
     t\<lparr> priority := Some (max 1 (10 - int i)),
        priority_auto_fixed :=
          Some ((case priority t of None \<Rightarrow> 5 | Some p \<Rightarrow> p) \<noteq> max 1 (10 - int i)) \<rparr>"

text \<open>A validator task without a priority, and two pipeline tasks with equal periods.\<close>

definition ex_no_priority :: validator_task where
  "ex_no_priority =
     \<lparr> task_name = Some ''Sensor'', execution_time = Some 10, max_execution = None,
       min_execution = None, period = Some 100, deadline = Some 100, priority = None,
       task_id = None, priority_auto_fixed = None \<rparr>"

definition ex_tie_B :: ptask where
  "ex_tie_B = \<lparr> name = ''B'', period_ms = 10, execution_ms = 1, deadline_ms = 10, prio = 1 \<rparr>"

definition ex_tie_A :: ptask where
  "ex_tie_A = \<lparr> name = ''A'', period_ms = 10, execution_ms = 1, deadline_ms = 10, prio = 1 \<rparr>"


text \<open>
  An environment in which \<open>verifyta\<close> runs and reports a failed formula.
\<close>

definition ex_env_violated :: environment where
  "ex_env_violated = \<lparr> verifyta_path = True, uppaal_generation = (\<lambda>tasks properties. []),
                        verifyta = (\<lambda>xml. Completed ex_output_mixed) \<rparr>"




section \<open>Properties of the schedulability analyzer\<close>

lemma convergence_test: "((of_int \<bar>a - b\<bar> :: rat) < 1 / 100) = (a = b)"
proof (cases "a = b")
  case True
  then show ?thesis by simp
next
  case False
  then have "1 \<le> \<bar>a - b\<bar>" by simp
  then have "(1::rat) \<le> of_int \<bar>a - b\<bar>"
    using of_int_le_iff[of 1 "\<bar>a - b\<bar>", where 'a=rat] by simp
  then show ?thesis using False by simp
qed

lemma failed_loop_empty:
  "failed_loop ts all_tasks = Inr f \<Longrightarrow>
   (f = []) = (\<forall>t\<in>set ts. \<exists>rt. calculate_response_time t all_tasks = Inr rt \<and> rt \<le> v_deadline t)"
  by (induction ts arbitrary: f) (auto split: sum.splits if_splits option.splits)

text \<open>
  The flag in terms of what \<open>analyze\<close> computes: it is true exactly when every
  validated task's computed response time is at most its deadline and the computed
  total utilization, the binary64 sum of the binary64 quotients, is at most 1.
\<close>

lemma analyze_flag:
  assumes "analyze tasks = Inr r"
  shows "is_schedulable r =
           ((\<forall>t\<in>set (map validate_task tasks).
               \<exists>rt. calculate_response_time t (map validate_task tasks) = Inr rt
                    \<and> rt \<le> v_deadline t)
            \<and> total_utilization r \<le> 1)"
    and "total_util_of (map validate_task tasks) = Inr (total_utilization r)"
  using assms
    failed_loop_empty[of "sort_key (\<lambda>t. - v_priority t) (map validate_task tasks)"
                         "map validate_task tasks"]
  by (auto simp: analyze_def Let_def split: sum.splits)

text \<open>
  Binary64 quotients and sums at a few inputs: \<open>1/10\<close>, \<open>1/10 + 2/10\<close>, which is
  \<open>0.30000000000000004\<close>, \<open>1/3\<close>, and \<open>1 + 1/10^17\<close>, which is \<open>1.0\<close>.
\<close>

lemma binary64_examples:
  "float_div 1 10 = Inr (3602879701896397 / 2 ^ 55)"
  "float_div 2 10 = Inr (3602879701896397 / 2 ^ 54)"
  "float_add (3602879701896397 / 2 ^ 55) (3602879701896397 / 2 ^ 54)
     = 5404319552844596 / 2 ^ 54"
  "float_div 1 3 = Inr (6004799503160661 / 2 ^ 54)"
  "float_div (- 1) 3 = Inr (- (6004799503160661 / 2 ^ 54))"
  "float_div 6 3 = Inr 2"
  "float_div 1 0 = Inl ZeroDivisionError"
  "total_util_of (map validate_task ex_over) = Inr 1"
  by code_simp+

text \<open>
  Claim C2. The flag compares the binary64 sum of the binary64 quotients \<open>C / T\<close> with
  \<open>1.0\<close>, and so departs from \<open>U \<le> 1\<close> in both directions. For the three tasks with
  execution times 33, 56 and 11 on the period 100, every computed response time (100,
  67 and 11) is within the deadline 100 and \<open>U\<close> is exactly 1; the computed sum is
  \<open>1 + 2^-52\<close>, \<open>analyze\<close> reports \<open>is_schedulable\<close> false with no failed task and
  the warning that the utilization exceeds 100 percent, and stage 3 of the pipeline
  calls the set unschedulable and returns it unrepaired. For the two tasks with the
  quotients \<open>1/1\<close> and \<open>1/10^17\<close>, \<open>U\<close> is greater than 1, the computed sum is 1,
  and \<open>analyze\<close> reports \<open>is_schedulable\<close> true.
\<close>

theorem analyze_utilization_rounding:
  "map (\<lambda>t. calculate_response_time t (map validate_task (map analyzer_task ex_full)))
       (map validate_task (map analyzer_task ex_full)) = [Inr 100, Inr 67, Inr 11]
   \<and> map v_deadline (map validate_task (map analyzer_task ex_full)) = [100, 100, 100]
   \<and> (\<Sum>t \<leftarrow> map validate_task (map analyzer_task ex_full).
         (of_int (v_execution_time t) / of_int (v_period t) :: rat)) = 1
   \<and> map_sum id verdict (analyze (map analyzer_task ex_full)) = Inr (False, [], 1 + 1 / 2 ^ 52)
   \<and> map_sum id warnings (analyze (map analyzer_task ex_full)) = Inr [UtilizationOver100]
   \<and> stage3_schedulability_analysis ex_full
       = Inr (Unschedulable [(''T1'', 100), (''T2'', 67), (''T3'', 11)] ex_full)
   \<and> map (\<lambda>t. calculate_response_time t (map validate_task ex_over))
         (map validate_task ex_over) = [Inr 1, Inr 101]
   \<and> map v_deadline (map validate_task ex_over) = [1, 10 ^ 17]
   \<and> (\<Sum>t \<leftarrow> map validate_task ex_over.
         (of_int (v_execution_time t) / of_int (v_period t) :: rat)) = 1 + 1 / 10 ^ 17
   \<and> map_sum id verdict (analyze ex_over) = Inr (True, [], 1)"
proof -
  have 1: "map (\<lambda>t. calculate_response_time t (map validate_task (map analyzer_task ex_full)))
       (map validate_task (map analyzer_task ex_full)) = [Inr 100, Inr 67, Inr 11]"
    by code_simp
  have 2: "map v_deadline (map validate_task (map analyzer_task ex_full)) = [100, 100, 100]"
    by code_simp
  have 3: "(\<Sum>t \<leftarrow> map validate_task (map analyzer_task ex_full).
         (of_int (v_execution_time t) / of_int (v_period t) :: rat)) = 1"
    by code_simp
  have 4: "map_sum id verdict (analyze (map analyzer_task ex_full))
             = Inr (False, [], 1 + 1 / 2 ^ 52)"
    by code_simp
  have 5: "map_sum id warnings (analyze (map analyzer_task ex_full)) = Inr [UtilizationOver100]"
    by code_simp
  have 6: "stage3_schedulability_analysis ex_full
       = Inr (Unschedulable [(''T1'', 100), (''T2'', 67), (''T3'', 11)] ex_full)"
    by code_simp
  have 7: "map (\<lambda>t. calculate_response_time t (map validate_task ex_over))
         (map validate_task ex_over) = [Inr 1, Inr 101]"
    by code_simp
  have 8: "map v_deadline (map validate_task ex_over) = [1, 10 ^ 17]"
    by code_simp
  have 9: "(\<Sum>t \<leftarrow> map validate_task ex_over.
         (of_int (v_execution_time t) / of_int (v_period t) :: rat)) = 1 + 1 / 10 ^ 17"
    by code_simp
  have 10: "map_sum id verdict (analyze ex_over) = Inr (True, [], 1)"
    by code_simp
  show ?thesis
    by (intro conjI) (rule 1 2 3 4 5 6 7 8 9 10)+
qed

text \<open>
  The periods of the validated tasks are not zero, so \<open>analyze\<close> can raise only for a
  missing task name once the task list is not empty.
\<close>

lemma validate_task_period: "v_period (validate_task t) \<noteq> 0"
  by (simp add: validate_task_def get_or_def Let_def split: option.splits)

lemma sum_utilization_returns:
  "\<forall>j\<in>set ts. v_period j \<noteq> 0 \<Longrightarrow> \<exists>u. sum_utilization acc ts = Inr u"
  by (induction ts arbitrary: acc) (auto simp: float_div_def)

lemma add_interference_returns:
  "\<forall>j\<in>set all_tasks. v_period j \<noteq> 0 \<Longrightarrow> \<exists>R. add_interference P R_i all_tasks acc = Inr R"
  by (induction all_tasks arbitrary: acc) auto

lemma response_loop_returns:
  "\<forall>j\<in>set all_tasks. v_period j \<noteq> 0 \<Longrightarrow> \<exists>R. response_loop k t all_tasks R_i = Inr R"
proof (induction k arbitrary: R_i)
  case 0
  then show ?case by simp
next
  case (Suc k)
  from add_interference_returns[OF Suc.prems]
  obtain R where "add_interference (v_priority t) R_i all_tasks (v_execution_time t) = Inr R"
    by blast
  then show ?case using Suc.IH[OF Suc.prems, of R] by simp
qed

lemma calculate_response_time_returns:
  "\<forall>j\<in>set all_tasks. v_period j \<noteq> 0 \<Longrightarrow> \<exists>R. calculate_response_time t all_tasks = Inr R"
  by (simp add: calculate_response_time_def response_loop_returns)

lemma failed_loop_error:
  "\<forall>j\<in>set all_tasks. v_period j \<noteq> 0 \<Longrightarrow> failed_loop ts all_tasks = Inl e \<Longrightarrow>
     e = KeyError ''task_name'' \<and> (\<exists>t\<in>set ts. v_task_name t = None)"
proof (induction ts)
  case Nil
  then show ?case by simp
next
  case (Cons t ts)
  from calculate_response_time_returns[OF Cons.prems(1), of t]
  obtain R where "calculate_response_time t all_tasks = Inr R" by blast
  then show ?case using Cons by (auto split: if_splits option.splits sum.splits)
qed

lemma inversion_inner_error:
  "inversion_inner t ts = Inl e \<Longrightarrow>
     e = KeyError ''task_name'' \<and> (\<exists>u\<in>set (t # ts). v_task_name u = None)"
  by (induction ts) (auto split: if_splits option.splits sum.splits)

lemma check_priority_inversion_error:
  "check_priority_inversion ts = Inl e \<Longrightarrow>
     e = KeyError ''task_name'' \<and> (\<exists>u\<in>set ts. v_task_name u = None)"
proof (induction ts)
  case Nil
  then show ?case by simp
next
  case (Cons t ts)
  then show ?case using inversion_inner_error[of t ts e]
    by (auto split: sum.splits)
qed

lemma analyze_error:
  assumes "tasks \<noteq> []" and "analyze tasks = Inl e"
  shows "e = KeyError ''task_name'' \<and> (\<exists>t\<in>set tasks. task_name t = None)"
proof -
  let ?vs = "map validate_task tasks"
  have per: "\<forall>j\<in>set ?vs. v_period j \<noteq> 0" by (auto simp: validate_task_period)
  have nm: "\<And>u. u \<in> set ?vs \<Longrightarrow> v_task_name u = None \<Longrightarrow> \<exists>t\<in>set tasks. task_name t = None"
    by (auto simp: validate_task_def Let_def)
  obtain u where u: "total_util_of ?vs = Inr u"
    using sum_utilization_returns[OF per, of 0] by (auto simp: total_util_of_def)
  from assms u have
    "failed_loop (sort_key (\<lambda>t. - v_priority t) ?vs) ?vs = Inl e
     \<or> check_priority_inversion ?vs = Inl e"
    by (auto simp: analyze_def liu_layland_bound_def Let_def split: sum.splits)
  then show ?thesis
  proof
    assume "failed_loop (sort_key (\<lambda>t. - v_priority t) ?vs) ?vs = Inl e"
    from failed_loop_error[OF per this] nm show ?thesis by auto
  next
    assume "check_priority_inversion ?vs = Inl e"
    from check_priority_inversion_error[OF this] nm show ?thesis by blast
  qed
qed

lemma analyze_returns:
  assumes "tasks \<noteq> []" and "\<forall>t\<in>set tasks. task_name t \<noteq> None"
  shows "\<exists>r. analyze tasks = Inr r"
proof (cases "analyze tasks")
  case (Inl e)
  from analyze_error[OF assms(1) Inl] assms(2) show ?thesis by blast
next
  case (Inr r)
  then show ?thesis by blast
qed

text \<open>
  Claim C9. On the empty task list \<open>analyze\<close> raises \<open>ZeroDivisionError\<close>, from the
  \<open>1/n\<close> of the Liu and Layland bound; on every non-empty task list the bound is
  computed, and \<open>analyze\<close> does not raise \<open>ZeroDivisionError\<close>.
\<close>

theorem analyze_empty_raises:
  "analyze [] = Inl ZeroDivisionError
   \<and> (\<forall>tasks. tasks \<noteq> [] \<longrightarrow>
         (\<exists>b. liu_layland_bound (length tasks) = Inr b)
         \<and> analyze tasks \<noteq> Inl ZeroDivisionError)"
proof -
  have "analyze [] = Inl ZeroDivisionError"
    by (simp add: analyze_def liu_layland_bound_def total_util_of_def)
  moreover have "\<And>tasks. tasks \<noteq> [] \<Longrightarrow> analyze tasks \<noteq> Inl ZeroDivisionError"
    using analyze_error by fastforce
  ultimately show ?thesis by (simp add: liu_layland_bound_def)
qed

theorem analyze_empty_raises_witness:
  "analyze [] = Inl ZeroDivisionError \<and> ex_single \<noteq> []
   \<and> (\<exists>b. liu_layland_bound (length ex_single) = Inr b)
   \<and> analyze ex_single \<noteq> Inl ZeroDivisionError"
proof -
  have ne: "ex_single \<noteq> []" by (simp add: ex_single_def)
  show ?thesis using analyze_empty_raises ne by blast
qed

text \<open>
  One pass of the inner loop of \<open>_calculate_response_time\<close> adds the interference of
  exactly the tasks whose priority number is greater than \<open>P_i\<close>.
\<close>

lemma add_interference_sum:
  "\<forall>j\<in>set all_tasks. v_priority j > P \<longrightarrow> v_period j \<noteq> 0 \<Longrightarrow>
   add_interference P R all_tasks acc =
     Inr (acc + (\<Sum>j \<leftarrow> filter (\<lambda>j. v_priority j > P) all_tasks.
                   ceil_div R (v_period j) * v_execution_time j))"
  by (induction all_tasks arbitrary: acc) auto

text \<open>
  Claim C1. The specification takes the interference on task \<open>i\<close> from the tasks with
  a lower priority number. Stage 2 of the pipeline gives priority 1 to the shortest
  period, and the analyzer then takes the interference from the tasks with a greater
  priority number. For the two tasks \<open>A\<close> (period 4, execution 2, deadline 2, priority 1)
  and \<open>B\<close> (period 10, execution 3, deadline 10, priority 2), which stage 2 leaves as
  they are, the code computes the response times 5 and 3 and declares the set
  unschedulable; the recurrence of the claim gives 2 and 7.
\<close>

theorem response_time_interference_inverted:
  "spec_after_stage2 [ex_A, ex_B] = ([ex_A, ex_B], False)
   \<and> map (\<lambda>t. calculate_response_time (analyzer_vtask t) (map analyzer_vtask [ex_A, ex_B]))
         [ex_A, ex_B] = [Inr 5, Inr 3]
   \<and> map (\<lambda>t. spec_response_time (analyzer_vtask t) (map analyzer_vtask [ex_A, ex_B]))
         [ex_A, ex_B] = [2, 7]
   \<and> stage3_schedulability_analysis [ex_A, ex_B]
       = Inr (Unschedulable [(''A'', 5), (''B'', 3)]
                [ex_A\<lparr> deadline_ms := 6, period_ms := 6 \<rparr>, ex_B])"
  by code_simp

section \<open>Properties of the repairs\<close>

text \<open>
  What the repair of one task does, given its response time: nothing when the response
  time is within the deadline; otherwise the deadline becomes \<open>math.ceil(R * 1.1)\<close> and
  the period is raised to it when it is smaller.
\<close>

lemma repair_task_cases:
  "R \<le> deadline_ms t \<Longrightarrow> repair_task t R = t"
  "deadline_ms t < R \<Longrightarrow>
     repair_task t R = t\<lparr> deadline_ms := ceil_times_1_1 R,
                           period_ms := max (period_ms t) (ceil_times_1_1 R) \<rparr>"
  by (simp_all add: repair_task_def Let_def max_def)

text \<open>
  Claim C7. The analyzer-side repair computes the new deadline as \<open>math.ceil(R * 1.1)\<close>
  in binary64. For the single task with execution time 50 and deadline 40 the response
  time is 50, the product is just above 55 and the new deadline is 56, where the ceiling
  of \<open>1.1 * 50\<close> is 55.
\<close>

theorem auto_repair_rounding:
  "stage3_schedulability_analysis [ex_late]
     = Inr (Unschedulable [(''Task_1'', 50)]
              [\<lparr> name = ''Task_1'', period_ms = 100, execution_ms = 50, deadline_ms = 56, prio = 1 \<rparr>])
   \<and> ceil_times_1_1 50 = 56
   \<and> \<lceil>(11 / 10 :: rat) * 50\<rceil> = (55 :: int)"
proof -
  have "stage3_schedulability_analysis [ex_late]
     = Inr (Unschedulable [(''Task_1'', 50)]
              [\<lparr> name = ''Task_1'', period_ms = 100, execution_ms = 50, deadline_ms = 56, prio = 1 \<rparr>])"
    by code_simp
  moreover have "ceil_times_1_1 50 = 56" by code_simp
  moreover have "\<lceil>(11 / 10 :: rat) * 50\<rceil> = (55 :: int)" by simp
  ultimately show ?thesis by simp
qed

lemma apply_counterexamples_fst:
  "fst (apply_counterexamples nm ces t reps) =
     t\<lparr> deadline_ms :=
          (int_times_1_2 ^^ length (filter (\<lambda>ce. sanitize_name nm \<in> set (trace ce)
                                              \<and> contains ''deadline'' (lower (violation ce))) ces))
            (deadline_ms t) \<rparr>"
proof (induction ces arbitrary: t reps)
  case Nil
  then show ?case by simp
next
  case (Cons ce ces)
  then show ?case by (simp add: Let_def funpow_swap1)
qed

lemma failure_analysis_loop_spec:
  "repaired_spec (failure_analysis_loop ces ts reps) =
     map (\<lambda>t. t\<lparr> deadline_ms :=
          (int_times_1_2 ^^ length (filter (\<lambda>ce. sanitize_name (name t) \<in> set (trace ce)
                                              \<and> contains ''deadline'' (lower (violation ce))) ces))
            (deadline_ms t) \<rparr>) ts"
proof (induction ts arbitrary: reps)
  case Nil
  then show ?case by simp
next
  case (Cons t ts)
  obtain rt reps' where a: "apply_counterexamples (name t) ces t reps = (rt, reps')"
    by (cases "apply_counterexamples (name t) ces t reps")
  have rt: "rt = t\<lparr> deadline_ms :=
          (int_times_1_2 ^^ length (filter (\<lambda>ce. sanitize_name (name t) \<in> set (trace ce)
                                              \<and> contains ''deadline'' (lower (violation ce))) ces))
            (deadline_ms t) \<rparr>"
    using apply_counterexamples_fst[of "name t" ces t reps] a by simp
  show ?case using a rt Cons.IH[of reps'] by simp
qed

text \<open>
  The binary64 product \<open>D * 1.2\<close>, truncated, is the floor of \<open>6 * D / 5\<close>.
\<close>

lemma bit_length_pos: "0 < N \<Longrightarrow> bit_length N = Suc (bit_length (N div 2))"
  by (simp add: bit_length.simps[of N])

lemma bit_length_bounds:
  "0 < N \<Longrightarrow> 2 ^ (bit_length N - 1) \<le> N \<and> N < 2 ^ bit_length N"
proof (induction N rule: bit_length.induct)
  case (1 n)
  have b: "bit_length n = Suc (bit_length (n div 2))" using "1.prems" by (rule bit_length_pos)
  show ?case
  proof (cases "n div 2 \<le> 0")
    case True
    with "1.prems" have "n = 1" by linarith
    then show ?thesis by (simp add: bit_length.simps[of 1] bit_length.simps[of 0])
  next
    case False
    then have pos: "0 < n div 2" by simp
    have nle: "\<not> n \<le> 0" using "1.prems" by simp
    from "1.IH"[OF nle pos]
    have ih1: "2 ^ (bit_length (n div 2) - 1) \<le> n div 2"
      and ih2: "n div 2 < 2 ^ bit_length (n div 2)" by simp_all
    obtain c where c: "bit_length (n div 2) = Suc c"
      using bit_length_pos[OF pos] by simp
    have "2 * 2 ^ c \<le> 2 * (n div 2)" using ih1 c by simp
    then have lo: "(2::int) ^ (bit_length n - 1) \<le> n" using b c by simp
    have "n < 2 * (n div 2) + 2" by linarith
    also have "\<dots> \<le> 2 * 2 ^ bit_length (n div 2)" using ih2 by linarith
    finally have hi: "n < 2 ^ bit_length n" using b by simp
    from lo hi show ?thesis by simp
  qed
qed

lemma round_to_53_small: "bit_length N \<le> 53 \<Longrightarrow> round_to_53 N = N"
  by (simp add: round_to_53_def)

lemma round_to_53_grid:
  assumes "53 < bit_length N"
  defines "P \<equiv> (2::int) ^ (bit_length N - 53)" and "H \<equiv> (2::int) ^ (bit_length N - 54)"
  shows "round_to_53 N = (if N mod P > H \<or> (N mod P = H \<and> odd (N div P))
                          then N div P + 1 else N div P) * P"
    and "P = 2 * H" and "0 < H"
proof -
  have "bit_length N - 53 - 1 = bit_length N - 54" by simp
  then show "round_to_53 N = (if N mod P > H \<or> (N mod P = H \<and> odd (N div P))
                          then N div P + 1 else N div P) * P"
    using assms(1) by (simp add: round_to_53_def Let_def P_def H_def)
  have "bit_length N - 53 = Suc (bit_length N - 54)" using assms(1) by simp
  then show "P = 2 * H" by (simp add: P_def H_def)
  show "0 < H" by (simp add: H_def)
qed

lemma div_between:
  fixes a t k :: int
  assumes "0 < t" and "k * t \<le> a" and "a < (k + 1) * t"
  shows "a div t = k"
proof -
  have "a = k * t + (a - k * t)" by simp
  moreover have "0 \<le> a - k * t" and "a - k * t < t" using assms by (simp_all add: algebra_simps)
  ultimately show ?thesis
    by (metis assms(1) div_pos_pos_trivial div_mult_self3 add.commute add_0 less_irrefl)
qed

lemma round_then_floor:
  fixes N P H t k x :: int
  assumes PH: "P = 2 * H" and H: "0 < H" and t: "0 < t"
    and x: "x = (if N mod P > H \<or> (N mod P = H \<and> odd (N div P))
                 then N div P + 1 else N div P) * P"
    and lo: "k * (t * P) \<le> N"
    and hi: "N + H < (k + 1) * (t * P)"
  shows "x div (t * P) = k"
proof -
  define q where "q = N div P"
  define r where "r = N mod P"
  define q' where "q' = (if r > H \<or> (r = H \<and> odd q) then q + 1 else q)"
  have P: "0 < P" using PH H by simp
  have N: "N = q * P + r" by (simp add: q_def r_def)
  have r: "0 \<le> r" "r < P" using P by (simp_all add: r_def)
  have xq: "x = q' * P" using x by (simp add: q'_def q_def r_def)
  have "(k * t) * P \<le> N" using lo by (simp add: mult.assoc)
  then have "(k * t) * P < (q + 1) * P" using N r by (simp add: algebra_simps)
  then have "k * t < q + 1" using P by (simp add: mult_less_cancel_right)
  then have ge: "k * t \<le> q'" by (simp add: q'_def)
  have "q' * P \<le> N + H"
  proof (cases "q' = q")
    case True
    then show ?thesis using N r H by simp
  next
    case False
    then have "q' = q + 1" and "H \<le> r" by (auto simp: q'_def split: if_splits)
    then show ?thesis using N PH by (simp add: algebra_simps)
  qed
  then have "q' * P < ((k + 1) * t) * P" using hi by (simp add: mult.assoc)
  then have lt: "q' < (k + 1) * t" using P by (simp add: mult_less_cancel_right)
  have "x div (t * P) = (q' * P) div (P * t)" using xq by (simp add: mult.commute)
  also have "\<dots> = ((q' * P) div P) div t"
    using t by (simp add: zdiv_zmult2_eq)
  also have "\<dots> = q' div t" using P by simp
  also have "\<dots> = k" using div_between[OF t ge lt] .
  finally show ?thesis .
qed

lemma round_up_to_multiple:
  fixes N P H t k x j :: int
  assumes PH: "P = 2 * H" and H: "0 < H" and t: "0 < t"
    and x: "x = (if N mod P > H \<or> (N mod P = H \<and> odd (N div P))
                 then N div P + 1 else N div P) * P"
    and N: "N = k * (t * P) - j" and j: "0 < j" "j < H"
  shows "x div (t * P) = k"
proof -
  have P: "0 < P" using PH H by simp
  have N': "N = (k * t - 1) * P + (P - j)" using N by (simp add: algebra_simps)
  have rng: "0 \<le> P - j" "P - j < P" using j PH by simp_all
  have q: "N div P = k * t - 1"
    using N' rng P by (metis div_pos_pos_trivial div_mult_self3 add.commute add_0 less_irrefl)
  have r: "N mod P = P - j"
    using N' rng P by (metis mod_mult_self3 mod_pos_pos_trivial add.commute)
  have "H < N mod P" using r j PH by simp
  then have "x = (k * t) * P" using x q by simp
  then have "x div (t * P) = ((k * t) * P) div (t * P)" by simp
  also have "\<dots> = k" using t P by (simp add: mult.assoc)
  finally show ?thesis .
qed

lemma int_times_1_2_floor:
  assumes D0: "0 \<le> D" and D50: "D < 2 ^ 50"
  shows "int_times_1_2 D = (6 * D) div 5"
proof -
  define N where "N = D * m_1_2"
  define b where "b = bit_length N"
  have Q: "(2::int) ^ 52 = 4503599627370496" by simp
  have Dlt: "D < 1125899906842624" using D50 by simp
  have ft: "float_times D m_1_2 = round_to_53 N" using D0 by (simp add: float_times_def N_def)
  consider "D = 0" | "D = 1" | "2 \<le> D" using D0 by linarith
  then show ?thesis
  proof cases
    case 1
    then show ?thesis by (simp add: int_times_1_2_def float_times_def round_to_53_def
          bit_length.simps[of 0] Let_def)
  next
    case 2
    have "int_times_1_2 1 = 1" by code_simp
    then show ?thesis using 2 by simp
  next
    case 3
    have Nlo: "9007199254740992 < N" using 3 by (simp add: N_def m_1_2_def)
    have Npos: "0 < N" using Nlo by simp
    have Nhi: "N < 2 ^ 103" 
    proof -
      have "N < 1125899906842624 * 5404319552844595" using Dlt D0 by (simp add: N_def m_1_2_def)
      also have "\<dots> < (2::int) ^ 103" by simp
      finally show ?thesis .
    qed
    from bit_length_bounds[OF Npos]
    have bl: "2 ^ (b - 1) \<le> N" and bh: "N < 2 ^ b" by (simp_all add: b_def)
    have b53: "53 < b"
    proof (rule ccontr)
      assume "\<not> 53 < b"
      then have "b \<le> 53" by simp
      then have "(2::int) ^ b \<le> 2 ^ 53" by (rule power_increasing) simp
      then show False using bh Nlo by simp
    qed
    have b103: "b \<le> 103"
    proof (rule ccontr)
      assume "\<not> b \<le> 103"
      then have "103 \<le> b - 1" by simp
      then have "(2::int) ^ 103 \<le> 2 ^ (b - 1)" by (rule power_increasing) simp
      then show False using bl Nhi by linarith
    qed
    define s where "s = b - 53"
    define P where "P = (2::int) ^ (b - 53)"
    define H where "H = (2::int) ^ (b - 54)"
    define t where "t = (2::int) ^ (52 - s)"
    have s: "1 \<le> s" "s \<le> 50" using b53 b103 by (simp_all add: s_def)
    have tP: "t * P = 2 ^ 52"
    proof -
      have "t * P = 2 ^ ((52 - s) + s)" unfolding t_def P_def s_def[symmetric] by (simp only: power_add)
      then show ?thesis using s by simp
    qed
    have tpos: "0 < t" by (simp add: t_def)
    from round_to_53_grid[of N] b53
    have x: "round_to_53 N = (if N mod P > H \<or> (N mod P = H \<and> odd (N div P))
                              then N div P + 1 else N div P) * P"
      and PH: "P = 2 * H" and Hpos: "0 < H"
      by (simp_all add: b_def P_def H_def)
    have H49: "H \<le> 562949953421312"
    proof -
      have "b - 54 \<le> 49" using b103 by simp
      then have "(2::int) ^ (b - 54) \<le> 2 ^ 49" by (rule power_increasing) simp
      then show ?thesis by (simp add: H_def)
    qed
    have five: "5 * N = 6 * D * 4503599627370496 - D" by (simp add: N_def m_1_2_def)
    define k where "k = (6 * D) div 5"
    define r5 where "r5 = (6 * D) mod 5"
    have kr: "6 * D = 5 * k + r5" and r5: "0 \<le> r5" "r5 < 5" by (simp_all add: k_def r5_def)
    have res: "round_to_53 N div (t * P) = k"
    proof (cases "r5 = 0")
      case False
      then have r1: "1 \<le> r5" using r5 by simp
      have lo: "k * (t * P) \<le> N" using five kr r1 Dlt D0 by (simp add: tP)
      have hi: "N + H < (k + 1) * (t * P)" using five kr r5 H49 D0 by (simp add: tP)
      from round_then_floor[OF PH Hpos tpos x lo hi] show ?thesis .
    next
      case True
      then have "5 dvd 6 * D" by (simp add: r5_def dvd_eq_mod_eq_0)
      then have "5 dvd D" by presburger
      then obtain j where j: "D = 5 * j" by (auto simp: dvd_def)
      have kj: "k = 6 * j" using j by (simp add: k_def)
      have jpos: "0 < j" using j 3 by simp
      have Nj: "N = k * (t * P) - j" using five j kj by (simp add: tP)
      have "N < H * 18014398509481984"
      proof -
        have 1: "(2::int) ^ ((b - 54) + 54) = H * 2 ^ 54" by (simp only: power_add H_def)
        have 2: "(b - 54) + 54 = b" using b53 by simp
        have "(2::int) ^ b = H * 2 ^ 54" using 1 unfolding 2 .
        then show ?thesis using bh by simp
      qed
      moreover have "j * 18014398509481984 \<le> N" using Nj kj jpos by (simp add: tP)
      ultimately have "j * 18014398509481984 < H * 18014398509481984" by linarith
      then have jH: "j < H" by simp
      from round_up_to_multiple[OF PH Hpos tpos x Nj jpos jH] show ?thesis .
    qed
    have xnn: "0 \<le> round_to_53 N"
    proof -
      have "0 \<le> N div P" using Npos PH Hpos by (simp add: pos_imp_zdiv_nonneg_iff)
      then show ?thesis using x PH Hpos by simp
    qed
    show ?thesis using res xnn ft tP by (simp add: int_times_1_2_def Let_def k_def)
  qed
qed

text \<open>
  What stage 7 does in general. For every task it replaces the deadline \<open>D\<close> by
  \<open>int(D * 1.2)\<close>, once for every counterexample whose trace lists the sanitized task
  name and whose violation text mentions a deadline; the period and every other field
  stay as they are. For \<open>0 \<le> D < 2^50\<close> the binary64 product truncates to the floor
  of \<open>6 * D / 5\<close>, which is \<open>D\<close> itself for \<open>D\<close> from 1 to 4.
\<close>

lemma stage7_repair_structure:
  "repaired_spec (stage7_failure_analysis ces tasks) =
     map (\<lambda>t. t\<lparr> deadline_ms :=
          (int_times_1_2 ^^ length (filter (\<lambda>ce. sanitize_name (name t) \<in> set (trace ce)
                                              \<and> contains ''deadline'' (lower (violation ce))) ces))
            (deadline_ms t) \<rparr>) tasks"
  "0 \<le> D \<Longrightarrow> D < 2 ^ 50 \<Longrightarrow> int_times_1_2 D = (6 * D) div 5"
  by (simp_all add: stage7_failure_analysis_def failure_analysis_loop_spec int_times_1_2_floor)

text \<open>
  Inside the pipeline stage 7 receives the counterexamples of stage 6. Their traces are
  empty, or hold the one text \<open>State transition extracted from verifyta output\<close>, or
  the two texts \<open>Task_0.Executing\<close> and \<open>Task_1.Executing\<close>. A sanitized task name
  has neither a blank nor a dot, so no trace lists one, and stage 7 returns the task
  set as it received it, with no repair.
\<close>

lemma sanitize_name_chars:
  "c \<in> set (sanitize_name nm) \<Longrightarrow> c \<noteq> CHR '' '' \<and> c \<noteq> CHR ''.''"
  by (auto simp: sanitize_name_def split: if_splits)

lemma stage6_traces:
  assumes "ce \<in> set (counterexamples (stage6_verifyta_check E uppaal_xml properties))"
  shows "sanitize_name nm \<notin> set (trace ce)"
proof -
  have t: "trace ce = [] \<or> trace ce = [''State transition extracted from verifyta output'']
           \<or> trace ce = [''Task_0.Executing'', ''Task_1.Executing'']"
    using assms
    by (auto simp: stage6_verifyta_check_def simulate_verifyta_def verify_def
                   failed_line_entries_def Let_def
             split: if_splits run_outcome.splits)
  have a: "sanitize_name nm \<noteq> ''State transition extracted from verifyta output''"
    using sanitize_name_chars[of "CHR '' ''" nm] by auto
  have b: "sanitize_name nm \<noteq> ''Task_0.Executing''"
    using sanitize_name_chars[of "CHR ''.''" nm] by auto
  have c: "sanitize_name nm \<noteq> ''Task_1.Executing''"
    using sanitize_name_chars[of "CHR ''.''" nm] by auto
  from t a b c show ?thesis by auto
qed

lemma apply_counterexamples_unnamed:
  "\<forall>ce\<in>set ces. sanitize_name nm \<notin> set (trace ce) \<Longrightarrow>
     apply_counterexamples nm ces t reps = (t, reps)"
  by (induction ces) auto

lemma failure_analysis_loop_unnamed:
  "\<forall>ce\<in>set ces. \<forall>nm. sanitize_name nm \<notin> set (trace ce) \<Longrightarrow>
     failure_analysis_loop ces ts reps = \<lparr> repaired_spec = ts, repairs_applied = reps \<rparr>"
proof (induction ts)
  case Nil
  then show ?case by simp
next
  case (Cons t ts)
  have "apply_counterexamples (name t) ces t reps = (t, reps)"
    using Cons.prems by (intro apply_counterexamples_unnamed) blast
  with Cons show ?case by simp
qed

lemma stage7_after_stage6:
  "stage7_failure_analysis
     (counterexamples (stage6_verifyta_check E uppaal_xml properties)) tasks
     = \<lparr> repaired_spec = tasks, repairs_applied = [] \<rparr>"
  unfolding stage7_failure_analysis_def
  by (rule failure_analysis_loop_unnamed) (simp add: stage6_traces)

text \<open>
  Claim C6. Called with a counterexample whose trace lists the task \<open>Task_A\<close> and whose
  violation text mentions a deadline, stage 7 turns the deadline 11 of a task with
  period 11 into \<open>int(11 * 1.2) = 13\<close>, where the ceiling of \<open>1.2 * 11\<close> is 14, and
  leaves the period at 11, below the new deadline; the repair of stage 3 on the same
  task raises the period with the deadline. A deadline of 4 stays 4, and the repair is
  logged as an increase from 4 to 4. With the counterexamples that stage 6 builds from
  an output of \<open>verifyta\<close> with a failed formula, stage 7 changes nothing.
\<close>

theorem stage7_deadline_repair_defects:
  "stage7_failure_analysis [ex_deadline_ce] [ex_tight]
     = \<lparr> repaired_spec =
           [\<lparr> name = ''Task A'', period_ms = 11, execution_ms = 5, deadline_ms = 13, prio = 1 \<rparr>],
         repairs_applied = [(''Task A'', 11, 13)] \<rparr>
   \<and> \<lceil>(12 / 10 :: rat) * 11\<rceil> = (14 :: int)
   \<and> repair_task ex_tight 12
       = \<lparr> name = ''Task A'', period_ms = 14, execution_ms = 5, deadline_ms = 14, prio = 1 \<rparr>
   \<and> stage7_failure_analysis [ex_deadline_ce] [ex_short]
       = \<lparr> repaired_spec = [ex_short], repairs_applied = [(''Task A'', 4, 4)] \<rparr>
   \<and> all_passed (stage6_verifyta_check ex_env_violated []
                    (stage4_property_generation [ex_tight])) = False
   \<and> stage7_failure_analysis
        (counterexamples (stage6_verifyta_check ex_env_violated []
                            (stage4_property_generation [ex_tight]))) [ex_tight]
       = \<lparr> repaired_spec = [ex_tight], repairs_applied = [] \<rparr>"
proof -
  have 1: "stage7_failure_analysis [ex_deadline_ce] [ex_tight]
     = \<lparr> repaired_spec =
           [\<lparr> name = ''Task A'', period_ms = 11, execution_ms = 5, deadline_ms = 13, prio = 1 \<rparr>],
         repairs_applied = [(''Task A'', 11, 13)] \<rparr>"
    by code_simp
  have 2: "\<lceil>(12 / 10 :: rat) * 11\<rceil> = (14 :: int)"
    by (simp add: ceiling_eq_iff)
  have 3: "repair_task ex_tight 12
       = \<lparr> name = ''Task A'', period_ms = 14, execution_ms = 5, deadline_ms = 14, prio = 1 \<rparr>"
    by code_simp
  have 4: "stage7_failure_analysis [ex_deadline_ce] [ex_short]
       = \<lparr> repaired_spec = [ex_short], repairs_applied = [(''Task A'', 4, 4)] \<rparr>"
    by code_simp
  have 5: "all_passed (stage6_verifyta_check ex_env_violated []
                    (stage4_property_generation [ex_tight])) = False"
    by code_simp
  have 6: "stage7_failure_analysis
        (counterexamples (stage6_verifyta_check ex_env_violated []
                            (stage4_property_generation [ex_tight]))) [ex_tight]
       = \<lparr> repaired_spec = [ex_tight], repairs_applied = [] \<rparr>"
    by code_simp
  show ?thesis
    by (intro conjI) (rule 1 2 3 4 5 6)+
qed

section \<open>Properties of the property templates\<close>

text \<open>
  Claim C5, as the code has it. For a single task the template path produces exactly
  three properties: the deadlock-freedom property, the deadline property and the
  reachability property. There is no mutual-exclusion property and no leads-to
  property.
\<close>

theorem single_task_properties:
  "map formula (stage4_property_generation [t]) =
     [''A[] not deadlock'',
      ''A[] ('' @ sanitize_name (name t) @ ''.Executing imply x <= '' @ str_int (deadline_ms t) @ '')'',
      ''E<> '' @ sanitize_name (name t) @ ''.Done'']
   \<and> map category (stage4_property_generation [t]) = [SAFETY, DEADLINE, LIVENESS]
   \<and> length (stage4_property_generation [t]) = 3"
  by (simp add: stage4_property_generation_def deadlock_property_def deadline_property_def
        reachability_property_def)

text \<open>The claim as stated fails: the single task of the example gets three properties, not four.\<close>

theorem single_task_properties_counterexample:
  "length (stage4_property_generation [ex_task]) \<noteq> 4
   \<and> map formula (stage4_property_generation [ex_task]) =
       [''A[] not deadlock'', ''A[] (Task_1.Executing imply x <= 100)'', ''E<> Task_1.Done'']"
  by code_simp

section \<open>Properties of the verifier\<close>

lemma contains_iff_sublist: "contains sub s = sublist sub s"
  by (induction s) (auto simp: sublist_Cons_right)

lemma count_from_pos_iff:
  "sub \<noteq> [] \<Longrightarrow> (count_from 0 sub s > 0) = contains sub s"
  by (induction s) auto

lemma split_lines_nonempty: "split_lines s \<noteq> []"
  by (induction s) (auto split: list.splits)

lemma first_line:
  "split_lines s = l # ls \<Longrightarrow>
     CHR 0x0A \<notin> set l \<and> (s = l \<or> (\<exists>rest. s = l @ CHR 0x0A # rest))"
proof (induction s arbitrary: l ls)
  case Nil
  then show ?case by simp
next
  case (Cons c cs)
  show ?case
  proof (cases "c = CHR 0x0A")
    case True
    with Cons.prems show ?thesis by auto
  next
    case False
    obtain l' ls' where sp: "split_lines cs = l' # ls'"
      using split_lines_nonempty[of cs] by (cases "split_lines cs") auto
    from Cons.IH[OF sp] Cons.prems False sp show ?thesis by auto
  qed
qed

lemma prefix_first_line:
  assumes "CHR 0x0A \<notin> set p" and "s = l \<or> (\<exists>rest. s = l @ CHR 0x0A # rest)"
  shows "prefix p s = prefix p l"
proof (cases "s = l")
  case True
  then show ?thesis by simp
next
  case False
  with assms(2) obtain rest where s: "s = l @ CHR 0x0A # rest" by blast
  show ?thesis
  proof
    assume "prefix p s"
    then have "prefix p l \<or> (\<exists>us. p = l @ us \<and> prefix us (CHR 0x0A # rest))"
      unfolding s by (simp add: prefix_append)
    moreover have "\<And>us. p = l @ us \<Longrightarrow> prefix us (CHR 0x0A # rest) \<Longrightarrow> us = []"
      using assms(1) by (case_tac us) auto
    ultimately show "prefix p l" by auto
  next
    assume "prefix p l"
    then show "prefix p s" unfolding s by (simp add: prefix_prefix)
  qed
qed

text \<open>A phrase without a line break occurs in a text exactly when it occurs in one of its lines.\<close>

lemma contains_lines:
  assumes "CHR 0x0A \<notin> set p" and "p \<noteq> []"
  shows "contains p s = (\<exists>l\<in>set (split_lines s). contains p l)"
proof (induction s)
  case Nil
  then show ?case by simp
next
  case (Cons c cs)
  show ?case
  proof (cases "c = CHR 0x0A")
    case True
    have "\<not> prefix p (c # cs)"
      using assms True by (cases p) auto
    with True Cons.IH assms(2) show ?thesis by simp
  next
    case False
    obtain l ls where sp: "split_lines cs = l # ls"
      using split_lines_nonempty[of cs] by (cases "split_lines cs") auto
    have fl: "cs = l \<or> (\<exists>rest. cs = l @ CHR 0x0A # rest)" using first_line[OF sp] by simp
    have "prefix p (c # cs) = prefix p (c # l)"
    proof (cases p)
      case Nil
      then show ?thesis by simp
    next
      case (Cons x xs)
      then have "CHR 0x0A \<notin> set xs" using assms(1) by simp
      from prefix_first_line[OF this fl] Cons show ?thesis by simp
    qed
    with Cons.IH sp False show ?thesis by auto
  qed
qed

text \<open>
  Claim C10. \<open>verify\<close> reports \<open>all_passed\<close> exactly when the run completed and its
  output has at least one line with \<open>Formula is satisfied\<close> and no line with
  \<open>Formula is NOT satisfied\<close>. With neither phrase in the output, and when the binary
  is missing, times out or raises, \<open>all_passed\<close> is false.
\<close>

theorem verify_all_passed_iff:
  "all_passed (verify outcome) =
     (\<exists>out. outcome = Completed out
        \<and> (\<exists>l\<in>set (split_lines out). sublist ''Formula is satisfied'' l)
        \<and> (\<forall>l\<in>set (split_lines out). \<not> sublist ''Formula is NOT satisfied'' l))"
proof (cases outcome)
  case (Completed out)
  have a: "(str_count out ''Formula is satisfied'' > 0)
             = (\<exists>l\<in>set (split_lines out). sublist ''Formula is satisfied'' l)"
    using contains_lines[of "''Formula is satisfied''" out]
    by (simp add: str_count_def count_from_pos_iff contains_iff_sublist)
  have b: "(str_count out ''Formula is NOT satisfied'' > 0)
             = (\<exists>l\<in>set (split_lines out). sublist ''Formula is NOT satisfied'' l)"
    using contains_lines[of "''Formula is NOT satisfied''" out]
    by (simp add: str_count_def count_from_pos_iff contains_iff_sublist)
  have "all_passed (verify outcome) =
          (str_count out ''Formula is NOT satisfied'' = 0
           \<and> str_count out ''Formula is satisfied'' > 0)"
    using Completed by (simp add: verify_def Let_def)
  with a b Completed show ?thesis by auto
qed (simp_all add: verify_def)

theorem verify_all_passed_iff_witness:
  "all_passed (verify (Completed ex_output_satisfied))
   \<and> split_lines ex_output_satisfied
       = [''Verifying formula 1 at line 1'', '' -- Formula is satisfied.'', []]
   \<and> \<not> all_passed (verify (Completed ex_output_mixed))
   \<and> \<not> all_passed (verify (Completed []))
   \<and> \<not> all_passed (verify NotFound)"
proof -
  have l1: "split_lines ex_output_satisfied
              = [''Verifying formula 1 at line 1'', '' -- Formula is satisfied.'', []]"
    by code_simp
  have s: "contains ''Formula is satisfied'' '' -- Formula is satisfied.''" by code_simp
  have n: "\<not> contains ''Formula is NOT satisfied'' ''Verifying formula 1 at line 1''"
    "\<not> contains ''Formula is NOT satisfied'' '' -- Formula is satisfied.''"
    "\<not> contains ''Formula is NOT satisfied'' []"
    by code_simp+
  have 1: "all_passed (verify (Completed ex_output_satisfied))"
    using verify_all_passed_iff[of "Completed ex_output_satisfied"] s n
    by (simp add: l1 contains_iff_sublist)
  have l2: "split_lines ex_output_mixed
              = ['' -- Formula is satisfied.'', '' -- Formula is NOT satisfied.'']"
    by code_simp
  have f: "contains ''Formula is NOT satisfied'' '' -- Formula is NOT satisfied.''"
    by code_simp
  have 2: "\<not> all_passed (verify (Completed ex_output_mixed))"
    using verify_all_passed_iff[of "Completed ex_output_mixed"] f
    by (simp add: l2 contains_iff_sublist)
  have 3: "\<not> all_passed (verify (Completed []))"
    using verify_all_passed_iff[of "Completed []"] by simp
  have 4: "\<not> all_passed (verify NotFound)"
    using verify_all_passed_iff[of NotFound] by simp
  from 1 l1 2 3 4 show ?thesis by blast
qed

section \<open>Properties of priority validation\<close>

lemma assign_priorities_spec:
  "distinct as \<Longrightarrow> \<forall>a\<in>set as. a < length h \<Longrightarrow>
   assign_priorities i as h nf = (h', nf') \<Longrightarrow>
     length h' = length h
     \<and> (\<forall>k<length as. h' ! (as ! k) = (h ! (as ! k))\<lparr> prio := int (i + k) + 1 \<rparr>)
     \<and> (\<forall>a<length h. a \<notin> set as \<longrightarrow> h' ! a = h ! a)"
proof (induction as arbitrary: i h nf)
  case Nil
  then show ?case by simp
next
  case (Cons a as)
  define h1 where "h1 = h[a := (h ! a)\<lparr> prio := int i + 1 \<rparr>]"
  have a_lt: "a < length h" using Cons.prems(2) by simp
  have step: "\<exists>nf1. assign_priorities (i + 1) as h1 nf1 = (h', nf')"
  proof (cases "prio (h ! a) \<noteq> int i + 1")
    case True
    with Cons.prems(3) show ?thesis by (auto simp: h1_def Let_def)
  next
    case False
    then have "(h ! a)\<lparr> prio := int i + 1 \<rparr> = h ! a" by simp
    then have "h1 = h" by (simp add: h1_def)
    with False Cons.prems(3) show ?thesis by (auto simp: Let_def)
  qed
  then obtain nf1 where run: "assign_priorities (i + 1) as h1 nf1 = (h', nf')" by blast
  have d: "distinct as" and notin: "a \<notin> set as" using Cons.prems(1) by auto
  have lt1: "\<forall>x\<in>set as. x < length h1" using Cons.prems(2) by (simp add: h1_def)
  from Cons.IH[OF d lt1 run]
  have len: "length h' = length h1"
    and ih1: "\<forall>k<length as. h' ! (as ! k) = (h1 ! (as ! k))\<lparr> prio := int (i + 1 + k) + 1 \<rparr>"
    and ih2: "\<forall>x<length h1. x \<notin> set as \<longrightarrow> h' ! x = h1 ! x"
    by auto
  have A: "length h' = length h" using len by (simp add: h1_def)
  have B: "\<forall>k<length (a # as). h' ! ((a # as) ! k) = (h ! ((a # as) ! k))\<lparr> prio := int (i + k) + 1 \<rparr>"
  proof (intro allI impI)
    fix k assume k: "k < length (a # as)"
    show "h' ! ((a # as) ! k) = (h ! ((a # as) ! k))\<lparr> prio := int (i + k) + 1 \<rparr>"
    proof (cases k)
      case 0
      have "h' ! a = h1 ! a" using ih2 a_lt notin by (simp add: h1_def)
      then show ?thesis using 0 a_lt by (simp add: h1_def)
    next
      case (Suc k')
      then have k': "k' < length as" using k by simp
      then have ne: "as ! k' \<noteq> a" using notin by (metis nth_mem)
      have "h' ! (as ! k') = (h1 ! (as ! k'))\<lparr> prio := int (i + 1 + k') + 1 \<rparr>" using ih1 k' by blast
      moreover have "h1 ! (as ! k') = h ! (as ! k')" using ne by (simp add: h1_def)
      ultimately show ?thesis using Suc by simp
    qed
  qed
  have C: "\<forall>x<length h. x \<notin> set (a # as) \<longrightarrow> h' ! x = h ! x"
    using ih2 by (auto simp: h1_def)
  from A B C show ?case by blast
qed

lemma stage2_store:
  assumes "distinct tasks" and "\<forall>a\<in>set tasks. a < length h"
    and "stage2_priority_validation h tasks = (h', r)"
  shows "length h' = length h"
    and "\<forall>k<length tasks. h' ! (sort_key (\<lambda>a. period_ms (h ! a)) tasks ! k)
            = (h ! (sort_key (\<lambda>a. period_ms (h ! a)) tasks ! k))\<lparr> prio := int k + 1 \<rparr>"
    and "\<forall>a<length h. a \<notin> set tasks \<longrightarrow> h' ! a = h ! a"
    and "fixed_refs r = (if needs_fix r then Some (sort_key (\<lambda>a. period_ms (h ! a)) tasks) else None)"
proof -
  let ?s = "sort_key (\<lambda>a. period_ms (h ! a)) tasks"
  obtain nf where run: "assign_priorities 0 ?s h False = (h', nf)"
    and r: "r = \<lparr> needs_fix = nf, fixed_refs = (if nf then Some ?s else None) \<rparr>"
    using assms(3) by (auto simp: stage2_priority_validation_def Let_def split: prod.splits)
  have d: "distinct ?s" using assms(1) by simp
  have lt: "\<forall>a\<in>set ?s. a < length h" using assms(2) by simp
  from assign_priorities_spec[OF d lt run]
  show "length h' = length h"
    and "\<forall>k<length tasks. h' ! (?s ! k) = (h ! (?s ! k))\<lparr> prio := int k + 1 \<rparr>"
    and "\<forall>a<length h. a \<notin> set tasks \<longrightarrow> h' ! a = h ! a"
    by auto
  show "fixed_refs r = (if needs_fix r then Some ?s else None)" using r by simp
qed

lemma sorted_key_index:
  assumes "sorted (map f s)" and "i < length s" and "j < length s" and "f (s ! i) < f (s ! j)"
  shows "i < j"
proof (rule ccontr)
  assume "\<not> i < j"
  then have "j \<le> i" by simp
  then have "map f s ! j \<le> map f s ! i"
    using assms(1,2) by (simp add: sorted_iff_nth_mono)
  then show False using assms by simp
qed

lemma nth_decomp:
  assumes "i < j" and "j < length xs"
  shows "\<exists>us vs ws. xs = us @ xs ! i # vs @ xs ! j # ws"
proof -
  have i: "i < length xs" using assms by simp
  have 1: "xs = take i xs @ xs ! i # drop (Suc i) xs"
    using i by (simp add: id_take_nth_drop)
  let ?d = "drop (Suc i) xs"
  have j': "j - Suc i < length ?d" using assms by simp
  have 2: "?d = take (j - Suc i) ?d @ ?d ! (j - Suc i) # drop (Suc (j - Suc i)) ?d"
    using j' by (simp only: id_take_nth_drop[symmetric])
  have 3: "?d ! (j - Suc i) = xs ! j" using assms by simp
  from 1 2 3 show ?thesis by metis
qed

lemma decomp_positions:
  assumes "distinct ys" and "ys = A @ a # B @ b # C" and "ys = A' @ b # B' @ a # C'"
  shows False
proof -
  have pa: "ys ! length A = a" and pb: "ys ! (length A + 1 + length B) = b"
    using assms(2) by (simp_all add: nth_append)
  have qb: "ys ! length A' = b" and qa: "ys ! (length A' + 1 + length B') = a"
    using assms(3) by (simp_all add: nth_append)
  have la: "length A < length ys" and lb: "length A + 1 + length B < length ys"
    using assms(2) by simp_all
  have lb': "length A' < length ys" and la': "length A' + 1 + length B' < length ys"
    using assms(3) by simp_all
  have "length A = length A' + 1 + length B'"
    using nth_eq_iff_index_eq[OF assms(1) la la'] pa qa by simp
  moreover have "length A + 1 + length B = length A'"
    using nth_eq_iff_index_eq[OF assms(1) lb lb'] pb qb by simp
  ultimately show False by simp
qed

lemma stable_sort_index:
  assumes "distinct xs" and "i < j" and "j < length xs" and "f (xs ! i) = f (xs ! j)"
    and "i' < length xs" and "j' < length xs"
    and "sort_key f xs ! i' = xs ! i" and "sort_key f xs ! j' = xs ! j"
  shows "i' < j'"
proof (rule ccontr)
  let ?s = "sort_key f xs"
  let ?P = "\<lambda>y. f y = f (xs ! i)"
  assume "\<not> i' < j'"
  moreover have "xs ! i \<noteq> xs ! j"
    using assms(1,2,3) by (simp add: nth_eq_iff_index_eq)
  then have "i' \<noteq> j'" using assms(7,8) by auto
  ultimately have lt: "j' < i'" by simp
  have "i' < length ?s" using assms(5) by simp
  from nth_decomp[OF lt this] obtain us vs ws
    where s: "?s = us @ xs ! j # vs @ xs ! i # ws" using assms(7,8) by auto
  from nth_decomp[OF assms(2,3)] obtain us' vs' ws'
    where x: "xs = us' @ xs ! i # vs' @ xs ! j # ws'" by auto
  have eq: "filter ?P ?s = filter ?P xs" by (rule sort_key_stable)
  have d: "distinct (filter ?P xs)" using assms(1) by simp
  have 1: "filter ?P xs = filter ?P us' @ xs ! i # filter ?P vs' @ xs ! j # filter ?P ws'"
    using assms(4) by (subst x) simp
  have 2: "filter ?P xs = filter ?P us @ xs ! j # filter ?P vs @ xs ! i # filter ?P ws"
    using assms(4) eq[symmetric] by (subst (asm) s) simp
  from decomp_positions[OF d 1 2] show False .
qed
lemma auto_fix_loop_spec:
  "distinct as \<Longrightarrow> \<forall>a\<in>set as. a < length h \<Longrightarrow>
   auto_fix_loop i as h issues = (h', issues') \<Longrightarrow>
     length h' = length h
     \<and> (\<forall>k<length as. h' ! (as ! k) = fixed_task (i + k) (h ! (as ! k)))
     \<and> (\<forall>a<length h. a \<notin> set as \<longrightarrow> h' ! a = h ! a)"
proof (induction as arbitrary: i h issues)
  case Nil
  then show ?case by simp
next
  case (Cons a as)
  define h1 where "h1 = h[a := fixed_task i (h ! a)]"
  have a_lt: "a < length h" using Cons.prems(2) by simp
  obtain is1 where run: "auto_fix_loop (i + 1) as h1 is1 = (h', issues')"
    using Cons.prems(3) by (auto simp: h1_def fixed_task_def Let_def)
  have d: "distinct as" and notin: "a \<notin> set as" using Cons.prems(1) by auto
  have lt1: "\<forall>x\<in>set as. x < length h1" using Cons.prems(2) by (simp add: h1_def)
  from Cons.IH[OF d lt1 run]
  have len: "length h' = length h1"
    and ih1: "\<forall>k<length as. h' ! (as ! k) = fixed_task (i + 1 + k) (h1 ! (as ! k))"
    and ih2: "\<forall>x<length h1. x \<notin> set as \<longrightarrow> h' ! x = h1 ! x"
    by auto
  have A: "length h' = length h" using len by (simp add: h1_def)
  have B: "\<forall>k<length (a # as). h' ! ((a # as) ! k) = fixed_task (i + k) (h ! ((a # as) ! k))"
  proof (intro allI impI)
    fix k assume k: "k < length (a # as)"
    show "h' ! ((a # as) ! k) = fixed_task (i + k) (h ! ((a # as) ! k))"
    proof (cases k)
      case 0
      have "h' ! a = h1 ! a" using ih2 a_lt notin by (simp add: h1_def)
      then show ?thesis using 0 a_lt by (simp add: h1_def)
    next
      case (Suc k')
      then have k': "k' < length as" using k by simp
      then have ne: "as ! k' \<noteq> a" using notin by (metis nth_mem)
      have "h' ! (as ! k') = fixed_task (i + 1 + k') (h1 ! (as ! k'))" using ih1 k' by blast
      moreover have "h1 ! (as ! k') = h ! (as ! k')" using ne by (simp add: h1_def)
      ultimately show ?thesis using Suc by simp
    qed
  qed
  have C: "\<forall>x<length h. x \<notin> set (a # as) \<longrightarrow> h' ! x = h ! x"
    using ih2 by (auto simp: h1_def)
  from A B C show ?case by blast
qed
lemma validate_loop_store:
  "\<forall>a\<in>set as. a < length h \<Longrightarrow> validate_loop strict idx as h issues = (h', issues') \<Longrightarrow>
     length h' = length h
     \<and> (\<forall>a<length h. h' ! a =
           (if a \<in> set as \<and> \<not> strict
            then (h ! a)\<lparr> priority := Some (case priority (h ! a) of None \<Rightarrow> 5
                                            | Some p \<Rightarrow> max 1 (min 10 p)) \<rparr>
            else h ! a))"
proof (induction as arbitrary: idx h issues)
  case Nil
  then show ?case by simp
next
  case (Cons a as)
  let ?fix = "\<lambda>t::validator_task. t\<lparr> priority := Some (case priority t of None \<Rightarrow> 5
                                            | Some p \<Rightarrow> max 1 (min 10 p)) \<rparr>"
  define h1 where "h1 = (if strict then h else h[a := ?fix (h ! a)])"
  have a_lt: "a < length h" using Cons.prems(1) by simp
  have same: "\<And>p. priority (h ! a) = Some p \<Longrightarrow> 1 \<le> p \<Longrightarrow> p \<le> 10 \<Longrightarrow> ?fix (h ! a) = h ! a"
    by simp
  have "\<exists>is1. validate_loop strict (idx + 1) as h1 is1 = (h', issues')"
  proof (cases "priority (h ! a)")
    case None
    with Cons.prems(2) show ?thesis by (auto simp: h1_def Let_def)
  next
    case (Some p)
    show ?thesis
    proof (cases "1 \<le> p \<and> p \<le> 10")
      case True
      then have "h[a := ?fix (h ! a)] = h" using same[OF Some] by simp
      then have "h1 = h" by (simp add: h1_def)
      with True Some Cons.prems(2) show ?thesis by (auto simp: Let_def)
    next
      case False
      with Some Cons.prems(2) show ?thesis by (auto simp: h1_def Let_def)
    qed
  qed
  then obtain is1 where run: "validate_loop strict (idx + 1) as h1 is1 = (h', issues')" by blast
  have lt1: "\<forall>x\<in>set as. x < length h1" using Cons.prems(1) by (simp add: h1_def)
  from Cons.IH[OF lt1 run]
  have len: "length h' = length h1"
    and ih: "\<forall>x<length h1. h' ! x = (if x \<in> set as \<and> \<not> strict then ?fix (h1 ! x) else h1 ! x)"
    by auto
  have A: "length h' = length h" using len by (simp add: h1_def)
  have B: "\<forall>x<length h. h' ! x = (if x \<in> set (a # as) \<and> \<not> strict then ?fix (h ! x) else h ! x)"
  proof (intro allI impI)
    fix x assume x: "x < length h"
    then have hx: "h' ! x = (if x \<in> set as \<and> \<not> strict then ?fix (h1 ! x) else h1 ! x)"
      using ih by (simp add: h1_def)
    show "h' ! x = (if x \<in> set (a # as) \<and> \<not> strict then ?fix (h ! x) else h ! x)"
    proof (cases "x = a")
      case True
      have idem: "?fix (?fix (h ! a)) = ?fix (h ! a)"
        by (cases "priority (h ! a)") simp_all
      show ?thesis using hx True a_lt idem by (auto simp: h1_def)
    next
      case False
      then show ?thesis using hx x by (auto simp: h1_def)
    qed
  qed
  from A B show ?case by blast
qed

lemma validate_priorities_store:
  assumes "\<forall>a\<in>set tasks. a < length hv" and "validate_priorities strict hv tasks = (hv', res)"
  shows "length hv' = length hv
     \<and> (\<forall>a<length hv. hv' ! a =
           (if a \<in> set tasks \<and> \<not> strict
            then (hv ! a)\<lparr> priority := Some (case priority (hv ! a) of None \<Rightarrow> 5
                                            | Some p \<Rightarrow> max 1 (min 10 p)) \<rparr>
            else hv ! a))"
proof -
  obtain is' where "validate_loop strict 0 tasks hv [] = (hv', is')"
    using assms(2) by (auto simp: validate_priorities_def Let_def split: prod.splits)
  from validate_loop_store[OF assms(1) this] show ?thesis .
qed
lemma priorities_by_period_parts:
  assumes "distinct tasks"
  shows "(\<forall>a\<in>set tasks. a < length h) \<and> stage2_priority_validation h tasks = (h', r) \<longrightarrow>
           map (\<lambda>a. prio (h' ! a)) (sort_key (\<lambda>a. period_ms (h ! a)) tasks)
             = map (\<lambda>k. int k + 1) [0 ..< length tasks]
           \<and> (\<forall>a\<in>set tasks. \<forall>b\<in>set tasks.
                 period_ms (h ! a) < period_ms (h ! b) \<longrightarrow> prio (h' ! a) < prio (h' ! b))
           \<and> (\<forall>i j. i < j \<and> j < length tasks
                     \<and> period_ms (h ! (tasks ! i)) = period_ms (h ! (tasks ! j))
                 \<longrightarrow> prio (h' ! (tasks ! i)) < prio (h' ! (tasks ! j)))"
    and "(\<forall>a\<in>set tasks. a < length hv) \<and> auto_fix_priorities False issues hv tasks = (hv', res) \<longrightarrow>
           map (\<lambda>a. priority (hv' ! a)) (sort_key (\<lambda>a. get_or (period (hv ! a)) 999999) tasks)
             = map (\<lambda>k. Some (max 1 (10 - int k))) [0 ..< length tasks]"
proof -
  show "(\<forall>a\<in>set tasks. a < length h) \<and> stage2_priority_validation h tasks = (h', r) \<longrightarrow>
           map (\<lambda>a. prio (h' ! a)) (sort_key (\<lambda>a. period_ms (h ! a)) tasks)
             = map (\<lambda>k. int k + 1) [0 ..< length tasks]
           \<and> (\<forall>a\<in>set tasks. \<forall>b\<in>set tasks.
                 period_ms (h ! a) < period_ms (h ! b) \<longrightarrow> prio (h' ! a) < prio (h' ! b))
           \<and> (\<forall>i j. i < j \<and> j < length tasks
                     \<and> period_ms (h ! (tasks ! i)) = period_ms (h ! (tasks ! j))
                 \<longrightarrow> prio (h' ! (tasks ! i)) < prio (h' ! (tasks ! j)))"
  proof (intro impI, elim conjE)
    let ?f = "\<lambda>a. period_ms (h ! a)"
    let ?s = "sort_key ?f tasks"
    assume lt: "\<forall>a\<in>set tasks. a < length h" and run: "stage2_priority_validation h tasks = (h', r)"
    have pr: "\<forall>k<length tasks. h' ! (?s ! k) = (h ! (?s ! k))\<lparr> prio := int k + 1 \<rparr>"
      using stage2_store(2)[OF assms lt run] .
    then have prk: "\<And>k. k < length tasks \<Longrightarrow> prio (h' ! (?s ! k)) = int k + 1" by simp
    have idx: "\<And>a. a \<in> set tasks \<Longrightarrow> \<exists>k<length tasks. ?s ! k = a"
    proof -
      fix a assume "a \<in> set tasks"
      then have "a \<in> set ?s" by simp
      then show "\<exists>k<length tasks. ?s ! k = a" by (metis in_set_conv_nth length_sort)
    qed
    have 1: "map (\<lambda>a. prio (h' ! a)) ?s = map (\<lambda>k. int k + 1) [0 ..< length tasks]"
      by (rule nth_equalityI) (simp_all add: prk)
    have 2: "\<forall>a\<in>set tasks. \<forall>b\<in>set tasks.
                 period_ms (h ! a) < period_ms (h ! b) \<longrightarrow> prio (h' ! a) < prio (h' ! b)"
    proof (intro ballI impI)
      fix a b assume a: "a \<in> set tasks" and b: "b \<in> set tasks"
        and ab: "period_ms (h ! a) < period_ms (h ! b)"
      from idx[OF a] obtain i where i: "i < length tasks" "?s ! i = a" by blast
      from idx[OF b] obtain j where j: "j < length tasks" "?s ! j = b" by blast
      have "i < j"
        using sorted_key_index[of ?f ?s i j] i j ab by simp
      then show "prio (h' ! a) < prio (h' ! b)" using prk[OF i(1)] prk[OF j(1)] i j by simp
    qed
    have 3: "\<forall>i j. i < j \<and> j < length tasks
                     \<and> period_ms (h ! (tasks ! i)) = period_ms (h ! (tasks ! j))
                 \<longrightarrow> prio (h' ! (tasks ! i)) < prio (h' ! (tasks ! j))"
    proof (intro allI impI, elim conjE)
      fix i j assume ij: "i < j" and j: "j < length tasks"
        and eq: "period_ms (h ! (tasks ! i)) = period_ms (h ! (tasks ! j))"
      have "tasks ! i \<in> set tasks" and "tasks ! j \<in> set tasks" using ij j by simp_all
      from idx[OF this(1)] idx[OF this(2)] obtain i' j'
        where i': "i' < length tasks" "?s ! i' = tasks ! i"
          and j': "j' < length tasks" "?s ! j' = tasks ! j" by blast
      have "i' < j'"
        using stable_sort_index[OF assms ij j, of ?f i' j'] eq i' j' by simp
      then show "prio (h' ! (tasks ! i)) < prio (h' ! (tasks ! j))"
        using prk[OF i'(1)] prk[OF j'(1)] i' j' by simp
    qed
    from 1 2 3 show "map (\<lambda>a. prio (h' ! a)) ?s = map (\<lambda>k. int k + 1) [0 ..< length tasks]
           \<and> (\<forall>a\<in>set tasks. \<forall>b\<in>set tasks.
                 period_ms (h ! a) < period_ms (h ! b) \<longrightarrow> prio (h' ! a) < prio (h' ! b))
           \<and> (\<forall>i j. i < j \<and> j < length tasks
                     \<and> period_ms (h ! (tasks ! i)) = period_ms (h ! (tasks ! j))
                 \<longrightarrow> prio (h' ! (tasks ! i)) < prio (h' ! (tasks ! j)))" by blast
  qed
next
  show "(\<forall>a\<in>set tasks. a < length hv) \<and> auto_fix_priorities False issues hv tasks = (hv', res) \<longrightarrow>
           map (\<lambda>a. priority (hv' ! a)) (sort_key (\<lambda>a. get_or (period (hv ! a)) 999999) tasks)
             = map (\<lambda>k. Some (max 1 (10 - int k))) [0 ..< length tasks]"
  proof (intro impI, elim conjE)
    let ?s = "sort_key (\<lambda>a. get_or (period (hv ! a)) 999999) tasks"
    assume lt: "\<forall>a\<in>set tasks. a < length hv"
      and run: "auto_fix_priorities False issues hv tasks = (hv', res)"
    obtain is' where loop: "auto_fix_loop 0 ?s hv issues = (hv', is')"
      using run by (auto simp: auto_fix_priorities_def Let_def split: prod.splits)
    have d: "distinct ?s" using assms by simp
    have lt': "\<forall>a\<in>set ?s. a < length hv" using lt by simp
    from auto_fix_loop_spec[OF d lt' loop]
    have "\<forall>k<length tasks. hv' ! (?s ! k) = fixed_task k (hv ! (?s ! k))" by simp
    then have "\<And>k. k < length tasks \<Longrightarrow> priority (hv' ! (?s ! k)) = Some (max 1 (10 - int k))"
      by (simp add: fixed_task_def)
    then show "map (\<lambda>a. priority (hv' ! a)) ?s
             = map (\<lambda>k. Some (max 1 (10 - int k))) [0 ..< length tasks]"
      by (intro nth_equalityI) simp_all
  qed
qed

text \<open>
  Claim C4, as the code has it. Stage 2 of the pipeline gives the tasks, listed by
  ascending period with equal periods in input order, the priorities 1 to n: a shorter
  period gets a smaller priority number, and of two tasks with equal periods the one
  that comes first in the input gets the smaller number, whatever the names.
  \<open>auto_fix_priorities\<close> in permissive mode gives the tasks, listed by ascending period
  (a missing or zero period counting as 999999), the priorities 10, 9, 8, and so on, not
  below 1.
\<close>

theorem priorities_by_period_stable:
  "(distinct tasks \<and> (\<forall>a\<in>set tasks. a < length h)
      \<and> stage2_priority_validation h tasks = (h', r) \<longrightarrow>
        map (\<lambda>a. prio (h' ! a)) (sort_key (\<lambda>a. period_ms (h ! a)) tasks)
          = map (\<lambda>k. int k + 1) [0 ..< length tasks]
        \<and> (\<forall>a\<in>set tasks. \<forall>b\<in>set tasks.
              period_ms (h ! a) < period_ms (h ! b) \<longrightarrow> prio (h' ! a) < prio (h' ! b))
        \<and> (\<forall>i j. i < j \<and> j < length tasks
                  \<and> period_ms (h ! (tasks ! i)) = period_ms (h ! (tasks ! j))
              \<longrightarrow> prio (h' ! (tasks ! i)) < prio (h' ! (tasks ! j))))
   \<and> (distinct vtasks \<and> (\<forall>a\<in>set vtasks. a < length hv)
      \<and> auto_fix_priorities False issues hv vtasks = (hv', res) \<longrightarrow>
        map (\<lambda>a. priority (hv' ! a)) (sort_key (\<lambda>a. get_or (period (hv ! a)) 999999) vtasks)
          = map (\<lambda>k. Some (max 1 (10 - int k))) [0 ..< length vtasks])"
  using priorities_by_period_parts(1)[of tasks h h' r]
    priorities_by_period_parts(2)[of vtasks hv issues hv' res]
  by blast

theorem priorities_by_period_stable_witness:
  "distinct [0, 1 :: nat] \<and> (1 :: nat) < length [ex_tie_B, ex_tie_A]
   \<and> stage2_priority_validation [ex_tie_B, ex_tie_A] [0, 1]
       = ([ex_tie_B, ex_tie_A\<lparr> prio := 2 \<rparr>], \<lparr> needs_fix = True, fixed_refs = Some [0, 1] \<rparr>)
   \<and> prio ([ex_tie_B, ex_tie_A\<lparr> prio := 2 \<rparr>] ! ([0, 1] ! 0))
       < prio ([ex_tie_B, ex_tie_A\<lparr> prio := 2 \<rparr>] ! ([0, 1] ! 1))
   \<and> distinct [0 :: nat] \<and> (0 :: nat) < length [ex_no_priority]
   \<and> fst (auto_fix_priorities False [] [ex_no_priority] [0])
       = [ex_no_priority\<lparr> priority := Some 10, priority_auto_fixed := Some True \<rparr>]"
proof -
  have 1: "stage2_priority_validation [ex_tie_B, ex_tie_A] [0, 1]
       = ([ex_tie_B, ex_tie_A\<lparr> prio := 2 \<rparr>], \<lparr> needs_fix = True, fixed_refs = Some [0, 1] \<rparr>)"
    by code_simp
  have 2: "distinct [0, 1 :: nat] \<and> (\<forall>a\<in>set [0, 1]. a < length [ex_tie_B, ex_tie_A])" by simp
  have 3: "period_ms ([ex_tie_B, ex_tie_A] ! ([0, 1] ! 0)) = period_ms ([ex_tie_B, ex_tie_A] ! ([0, 1] ! 1))"
    by (simp add: ex_tie_B_def ex_tie_A_def)
  have 4: "fst (auto_fix_priorities False [] [ex_no_priority] [0])
       = [ex_no_priority\<lparr> priority := Some 10, priority_auto_fixed := Some True \<rparr>]"
    by code_simp
  have "prio ([ex_tie_B, ex_tie_A\<lparr> prio := 2 \<rparr>] ! ([0, 1] ! 0))
       < prio ([ex_tie_B, ex_tie_A\<lparr> prio := 2 \<rparr>] ! ([0, 1] ! 1))"
    using priorities_by_period_stable[of "[0, 1]" "[ex_tie_B, ex_tie_A]"
        "[ex_tie_B, ex_tie_A\<lparr> prio := 2 \<rparr>]" "\<lparr> needs_fix = True, fixed_refs = Some [0, 1] \<rparr>"]
      1 2 3
    by (metis (no_types, lifting) length_Cons list.size(3) lessI zero_less_Suc Suc_lessD numeral_2_eq_2 One_nat_def)
  with 1 2 4 show ?thesis by simp
qed

text \<open>
  The claim as stated fails: of two tasks \<open>B\<close> and \<open>A\<close> with equal periods, given in this
  order, stage 2 gives priority 1 to \<open>B\<close>; and \<open>auto_fix_priorities\<close> gives a single
  task priority 10.
\<close>

theorem priorities_by_period_stable_counterexample:
  "map name (fst (spec_after_stage2 [ex_tie_B, ex_tie_A])) = [''B'', ''A'']
   \<and> map prio (fst (spec_after_stage2 [ex_tie_B, ex_tie_A])) = [1, 2]
   \<and> map priority (fst (auto_fix_priorities False [] [ex_no_priority] [0])) = [Some 10]"
  by code_simp

text \<open>
  Claim C8, as the code has it. Priority validation writes into the task dictionaries it
  is given. In permissive mode \<open>validate_priorities\<close> sets a missing priority to 5 and
  a priority outside 1 to 10 to the nearest bound, in the input dictionaries; in strict
  mode it leaves them as they are. Stage 2 sets the priority of the task at position
  \<open>k\<close> of the list sorted by period to \<open>k + 1\<close>, in the input dictionaries. Nothing
  but the priority of the listed tasks changes.
\<close>

theorem priority_validation_writes_in_place:
  "((\<forall>a\<in>set tasks. a < length hv) \<and> validate_priorities strict hv tasks = (hv', res) \<longrightarrow>
      length hv' = length hv
      \<and> (\<forall>a<length hv. hv' ! a =
           (if a \<in> set tasks \<and> \<not> strict
            then (hv ! a)\<lparr> priority := Some (case priority (hv ! a) of None \<Rightarrow> 5
                                            | Some p \<Rightarrow> max 1 (min 10 p)) \<rparr>
            else hv ! a)))
   \<and> (distinct refs \<and> (\<forall>a\<in>set refs. a < length h)
        \<and> stage2_priority_validation h refs = (h', r) \<longrightarrow>
      length h' = length h
      \<and> (\<forall>k<length refs. h' ! (sort_key (\<lambda>a. period_ms (h ! a)) refs ! k)
            = (h ! (sort_key (\<lambda>a. period_ms (h ! a)) refs ! k))\<lparr> prio := int k + 1 \<rparr>)
      \<and> (\<forall>a<length h. a \<notin> set refs \<longrightarrow> h' ! a = h ! a))"
  using validate_priorities_store[of tasks hv strict hv' res]
    stage2_store(1,2,3)[of refs h h' r]
  by blast

theorem priority_validation_writes_in_place_witness:
  "(0 :: nat) < length [ex_no_priority]
   \<and> validate_priorities False [ex_no_priority] [0]
       = ([ex_no_priority\<lparr> priority := Some 5 \<rparr>],
          Inr (True, [\<lparr> issue_task_id = 0, issue_task_name = ''Sensor'', issue_type = Missing,
                        severity = Warning, suggested_fix = Some 5 \<rparr>]))
   \<and> distinct [0, 1 :: nat] \<and> (1 :: nat) < length [ex_tie_B, ex_tie_A]
   \<and> stage2_priority_validation [ex_tie_B, ex_tie_A] [0, 1]
       = ([ex_tie_B, ex_tie_A\<lparr> prio := 2 \<rparr>], \<lparr> needs_fix = True, fixed_refs = Some [0, 1] \<rparr>)
   \<and> length [ex_no_priority\<lparr> priority := Some 5 \<rparr>] = length [ex_no_priority]
   \<and> length [ex_tie_B, ex_tie_A\<lparr> prio := 2 \<rparr>] = length [ex_tie_B, ex_tie_A]"
proof -
  have 1: "validate_priorities False [ex_no_priority] [0]
       = ([ex_no_priority\<lparr> priority := Some 5 \<rparr>],
          Inr (True, [\<lparr> issue_task_id = 0, issue_task_name = ''Sensor'', issue_type = Missing,
                        severity = Warning, suggested_fix = Some 5 \<rparr>]))"
    by code_simp
  have 2: "stage2_priority_validation [ex_tie_B, ex_tie_A] [0, 1]
       = ([ex_tie_B, ex_tie_A\<lparr> prio := 2 \<rparr>], \<lparr> needs_fix = True, fixed_refs = Some [0, 1] \<rparr>)"
    by code_simp
  have 3: "\<forall>a\<in>set [0]. a < length [ex_no_priority]" by simp
  have 4: "distinct [0, 1 :: nat] \<and> (\<forall>a\<in>set [0, 1]. a < length [ex_tie_B, ex_tie_A])" by simp
  from priority_validation_writes_in_place[of "[0]" "[ex_no_priority]" False
      "[ex_no_priority\<lparr> priority := Some 5 \<rparr>]" _ "[0, 1]" "[ex_tie_B, ex_tie_A]"
      "[ex_tie_B, ex_tie_A\<lparr> prio := 2 \<rparr>]" "\<lparr> needs_fix = True, fixed_refs = Some [0, 1] \<rparr>"]
    1 2 3 4
  show ?thesis by simp
qed

text \<open>
  The claim as stated fails: after the call, the task without a priority has priority 5,
  and the second of two tasks with priority 1 has priority 2.
\<close>

theorem priority_validation_writes_in_place_counterexample:
  "fst (validate_priorities False [ex_no_priority] [0]) = [ex_no_priority\<lparr> priority := Some 5 \<rparr>]
   \<and> ex_no_priority\<lparr> priority := Some 5 \<rparr> \<noteq> ex_no_priority
   \<and> fst (stage2_priority_validation [ex_tie_B, ex_tie_A] [0, 1])
       = [ex_tie_B, ex_tie_A\<lparr> prio := 2 \<rparr>]
   \<and> ex_tie_A\<lparr> prio := 2 \<rparr> \<noteq> ex_tie_A"
  by code_simp

section \<open>Properties of the controller\<close>


text \<open>
  After a failed verification the next iteration starts on the task set of stage 7,
  whatever that task set is: nothing compares it with the one before.
\<close>

lemma run_loop_after_repair:
  assumes "n < max_repair_iterations"
    and "stage1_input_validation inp = Valid normalized"
    and "spec_after_stage2 normalized = (cs, nf)"
    and "stage3_schedulability_analysis cs = Inr (Schedulable rts)"
    and "\<not> all_passed (stage6_verifyta_check E
            (uppaal_generation E cs (stage4_property_generation cs))
            (stage4_property_generation cs))"
  shows "\<exists>entry. run_loop E n inp hist =
           run_loop E (n + 1)
             (Spec (map to_raw (repaired_spec (stage7_failure_analysis
                (counterexamples (stage6_verifyta_check E
                   (uppaal_generation E cs (stage4_property_generation cs))
                   (stage4_property_generation cs))) cs))))
             (hist @ [entry])"
  using assms by (simp add: run_loop.simps[of E n] Let_def) blast




end
